theory Spec2Isabelle
  imports Main "HOL-Library.Sublist" "HOL-Library.AList"
begin

section \<open>Python values and exceptions\<close>

text \<open>
  The program under study is \<^verbatim>\<open>app.py\<close>, a Python script. Its strings are modelled as
  \<^typ>\<open>string\<close>, a list of characters with code points 0 to 255: the model covers the texts whose
  characters all lie in that range. Its integers are unbounded and are modelled as \<^typ>\<open>int\<close>.
  An exception is a value of the type \<open>exn\<close>, and a function that can raise returns
  \<open>exn + 'a\<close>, with \<open>Inl\<close> for the exception.
\<close>

datatype exn =
    GoogleAPIError string
  | ValueError string
  | IndexError string
  | OtherException string

text \<open>The values a medication dictionary holds: \<^verbatim>\<open>str\<close> or \<^verbatim>\<open>int\<close>.\<close>

datatype pyval = PInt int | PStr string

text \<open>
  A \<^verbatim>\<open>dict\<close> with string keys, in insertion order: \<^verbatim>\<open>d[k] = v\<close> is
  \<^const>\<open>AList.update\<close> (replace in place, or append), \<^verbatim>\<open>d.get(k, dflt)\<close> goes through
  \<^const>\<open>map_of\<close>.
\<close>

type_synonym med_record = "(string \<times> pyval) list"

definition dict_get :: "med_record \<Rightarrow> string \<Rightarrow> pyval \<Rightarrow> pyval" where
  "dict_get d k dflt = (case map_of d k of None \<Rightarrow> dflt | Some v \<Rightarrow> v)"

section \<open>String primitives of Python\<close>

text \<open>\<^verbatim>\<open>str.isspace\<close> on one character, for the code points below 256.\<close>

definition isspace :: "char \<Rightarrow> bool" where
  "isspace c = ((of_char c :: nat) \<in> {9, 10, 11, 12, 13, 28, 29, 30, 31, 32, 133, 160})"

text \<open>The class \<^verbatim>\<open>\d\<close> of the \<^verbatim>\<open>re\<close> module, for the code points below 256.\<close>

definition isdigit :: "char \<Rightarrow> bool" where
  "isdigit c = (48 \<le> (of_char c :: nat) \<and> (of_char c :: nat) \<le> 57)"

text \<open>\<^verbatim>\<open>s.strip()\<close> and \<^verbatim>\<open>s.strip(chars)\<close>.\<close>

definition py_strip :: "string \<Rightarrow> string" where
  "py_strip s = rev (dropWhile isspace (rev (dropWhile isspace s)))"

definition py_strip_chars :: "string \<Rightarrow> string \<Rightarrow> string" where
  "py_strip_chars s chars =
     rev (dropWhile (\<lambda>c. c \<in> set chars) (rev (dropWhile (\<lambda>c. c \<in> set chars) s)))"

text \<open>\<^verbatim>\<open>s.startswith(p)\<close> and \<^verbatim>\<open>s.endswith(p)\<close>.\<close>

definition py_startswith :: "string \<Rightarrow> string \<Rightarrow> bool" where
  "py_startswith s p = (take (length p) s = p)"

definition py_endswith :: "string \<Rightarrow> string \<Rightarrow> bool" where
  "py_endswith s p = (length p \<le> length s \<and> drop (length s - length p) s = p)"

text \<open>
  \<^verbatim>\<open>s.find(sub, start)\<close> for \<open>start \<ge> 0\<close>: the lowest index \<open>i \<ge> start\<close> at which
  \<open>sub\<close> begins, \<open>None\<close> for Python's \<open>-1\<close>. \<open>find_at sub s i\<close> scans the suffix \<open>s\<close>
  that begins at index \<open>i\<close>.
\<close>

fun find_at :: "string \<Rightarrow> string \<Rightarrow> nat \<Rightarrow> nat option" where
  "find_at sub [] i = (if sub = [] then Some i else None)"
| "find_at sub (c # cs) i =
     (if py_startswith (c # cs) sub then Some i else find_at sub cs (Suc i))"

definition py_find :: "string \<Rightarrow> string \<Rightarrow> nat \<Rightarrow> nat option" where
  "py_find s sub start = (if length s < start then None else find_at sub (drop start s) start)"

text \<open>\<^verbatim>\<open>sub in s\<close>, and \<^verbatim>\<open>s.index(sub)\<close>, which raises \<^verbatim>\<open>ValueError\<close> where find gives -1.\<close>

definition py_in :: "string \<Rightarrow> string \<Rightarrow> bool" where
  "py_in sub s = (py_find s sub 0 \<noteq> None)"

definition py_index :: "string \<Rightarrow> string \<Rightarrow> exn + nat" where
  "py_index s sub =
     (case py_find s sub 0 of
        None \<Rightarrow> Inl (ValueError ''substring not found'')
      | Some i \<Rightarrow> Inr i)"

section \<open>Result processing: \<^verbatim>\<open>extract_section\<close>\<close>

definition extract_section :: "string \<Rightarrow> string \<Rightarrow> exn + string" where
  "extract_section content section_title =
     (if \<not> py_in section_title content
      then Inr (''## '' @ section_title @ ''\<newline>No information found in this section.'')
      else
        (case py_index content section_title of
           Inl e \<Rightarrow> Inl e
         | Inr section_start \<Rightarrow>
             (let remaining_content = drop section_start content in
              (case py_find remaining_content ''## '' (length section_title) of
                 Some next_section_pos \<Rightarrow>
                   Inr (py_strip (take next_section_pos remaining_content))
               | None \<Rightarrow> Inr (py_strip remaining_content)))))"

section \<open>More string primitives\<close>

text \<open>
  \<^verbatim>\<open>s.split(sep)\<close>. Every call of the program passes a literal, non-empty separator; for the
  empty one, where Python raises \<^verbatim>\<open>ValueError\<close>, the function below is of no interest.
\<close>

lemma find_at_nonempty: "find_at sub s k = Some i \<Longrightarrow> sub \<noteq> [] \<Longrightarrow> s \<noteq> []"
  by (cases s) auto

function py_split :: "string \<Rightarrow> string \<Rightarrow> string list" where
  "py_split s sep =
     (if sep = [] then [s]
      else
        (case py_find s sep 0 of
           None \<Rightarrow> [s]
         | Some i \<Rightarrow> take i s # py_split (drop (i + length sep) s) sep))"
  by pat_completeness auto
termination
proof (relation "measure (\<lambda>(s, sep). length s)")
  show "wf (measure (\<lambda>(s, sep). length s))" by simp
next
  fix s sep :: string and i :: nat
  assume sep: "sep \<noteq> []" and found: "py_find s sep 0 = Some i"
  from found have "find_at sep s 0 = Some i"
    by (simp add: py_find_def)
  with sep have "s \<noteq> []" by (rule_tac find_at_nonempty)
  with sep show "((drop (i + length sep) s, sep), (s, sep)) \<in> measure (\<lambda>(s, sep). length s)"
    by (cases s) auto
qed

declare py_split.simps [simp del]

text \<open>\<^verbatim>\<open>s.split(sep, 1)\<close>: at most one split.\<close>

definition py_split_max1 :: "string \<Rightarrow> string \<Rightarrow> string list" where
  "py_split_max1 s sep =
     (case py_find s sep 0 of
        None \<Rightarrow> [s]
      | Some i \<Rightarrow> [take i s, drop (i + length sep) s])"

text \<open>\<^verbatim>\<open>xs[i]\<close> for \<open>i \<ge> 0\<close>, which raises \<^verbatim>\<open>IndexError\<close> out of range.\<close>

definition py_getitem :: "'a list \<Rightarrow> nat \<Rightarrow> exn + 'a" where
  "py_getitem xs i =
     (if i < length xs then Inr (xs ! i) else Inl (IndexError ''list index out of range''))"

text \<open>\<^verbatim>\<open>s.lower()\<close> for the code points below 256, and \<^verbatim>\<open>s.replace(old, new)\<close> for a
  one-character \<open>old\<close>.\<close>

definition lower_char :: "char \<Rightarrow> char" where
  "lower_char c =
     (let n = (of_char c :: nat) in
      if (65 \<le> n \<and> n \<le> 90) \<or> (192 \<le> n \<and> n \<le> 222 \<and> n \<noteq> 215)
      then char_of (n + 32) else c)"

definition py_lower :: "string \<Rightarrow> string" where
  "py_lower s = map lower_char s"

definition py_replace :: "string \<Rightarrow> char \<Rightarrow> string \<Rightarrow> string" where
  "py_replace s old new = concat (map (\<lambda>c. if c = old then new else [c]) s)"

text \<open>
  \<^verbatim>\<open>int(s)\<close> on a string: surrounding whitespace and one sign are allowed, then decimal
  digits, with single underscores between digits; anything else raises \<^verbatim>\<open>ValueError\<close>.
  The whitespace that \<^verbatim>\<open>int\<close> skips is that of \<^verbatim>\<open>str.isspace\<close> without the four
  separators 28 to 31. A literal with more digits than the interpreter's limit (4300 by
  default; the sign and the underscores do not count, leading zeros do) raises
  \<^verbatim>\<open>ValueError\<close> too. The messages of the two errors are shortened here.
\<close>

definition int_isspace :: "char \<Rightarrow> bool" where
  "int_isspace c = ((of_char c :: nat) \<in> {9, 10, 11, 12, 13, 32, 133, 160})"

definition digits_value :: "string \<Rightarrow> nat" where
  "digits_value ds = foldl (\<lambda>acc c. 10 * acc + ((of_char c :: nat) - 48)) 0 ds"

definition int_literal_ok :: "string \<Rightarrow> bool" where
  "int_literal_ok b =
     (b \<noteq> [] \<and> isdigit (hd b) \<and> isdigit (last b)
      \<and> list_all (\<lambda>c. isdigit c \<or> c = CHR ''_'') b \<and> \<not> py_in ''__'' b)"

definition MAX_STR_DIGITS :: nat where
  "MAX_STR_DIGITS = 4300"

definition py_int :: "string \<Rightarrow> exn + int" where
  "py_int s =
     (let t = rev (dropWhile int_isspace (rev (dropWhile int_isspace s)));
          signed = (t \<noteq> [] \<and> (hd t = CHR ''-'' \<or> hd t = CHR ''+''));
          body = (if signed then tl t else t);
          digits = filter (\<lambda>c. c \<noteq> CHR ''_'') body
      in if \<not> int_literal_ok body
         then Inl (ValueError ''invalid literal for int() with base 10'')
         else if MAX_STR_DIGITS < length digits
         then Inl (ValueError ''Exceeds the limit (4300 digits) for integer string conversion'')
         else Inr ((if signed \<and> hd t = CHR ''-'' then - 1 else 1) * int (digits_value digits)))"

section \<open>The regular expressions of the program\<close>

text \<open>
  \<^verbatim>\<open>\n\s*[-*]\s+\<close> matched at the head of \<open>s\<close>: the length of the match. The two
  whitespace runs are greedy; since neither \<^verbatim>\<open>-\<close> nor \<^verbatim>\<open>*\<close> is whitespace, giving
  characters back never helps, so each run is the longest one.
\<close>

definition bullet_match :: "string \<Rightarrow> nat option" where
  "bullet_match s =
     (case s of
        [] \<Rightarrow> None
      | c # r \<Rightarrow>
          if c \<noteq> CHR ''\<newline>'' then None
          else
            (let ws = takeWhile isspace r; r2 = dropWhile isspace r in
             (case r2 of
                [] \<Rightarrow> None
              | b # r3 \<Rightarrow>
                  if b \<noteq> CHR ''-'' \<and> b \<noteq> CHR ''*'' then None
                  else
                    (let ws2 = takeWhile isspace r3 in
                     if ws2 = [] then None
                     else Some (1 + length ws + 1 + length ws2)))))"

text \<open>The leftmost match in a string that begins at index \<open>i\<close>: its start and length.\<close>

fun bullet_search :: "string \<Rightarrow> nat \<Rightarrow> (nat \<times> nat) option" where
  "bullet_search [] i = None"
| "bullet_search (c # cs) i =
     (case bullet_match (c # cs) of
        Some n \<Rightarrow> Some (i, n)
      | None \<Rightarrow> bullet_search cs (Suc i))"

lemma bullet_search_nonempty: "bullet_search s k = Some (i, n) \<Longrightarrow> s \<noteq> [] \<and> 0 < n"
  by (induction s arbitrary: k)
     (auto simp: bullet_match_def Let_def split: option.splits if_splits list.splits)

text \<open>\<^verbatim>\<open>re.split(r"\n\s*[-*]\s+", s)\<close>: the pieces between successive matches.\<close>

function re_split_bullets :: "string \<Rightarrow> string list" where
  "re_split_bullets s =
     (case bullet_search s 0 of
        None \<Rightarrow> [s]
      | Some (i, n) \<Rightarrow> take i s # re_split_bullets (drop (i + n) s))"
  by pat_completeness auto
termination
proof (relation "measure length")
  show "wf (measure (length :: string \<Rightarrow> nat))" by simp
next
  fix s :: string and x2 :: "nat \<times> nat" and i n :: nat
  assume "bullet_search s 0 = Some x2" and "(i, n) = x2"
  then have "s \<noteq> [] \<and> 0 < n"
    using bullet_search_nonempty [of s 0 i n] by simp
  then show "(drop (i + n) s, s) \<in> measure length"
    by (cases s) auto
qed

declare re_split_bullets.simps [simp del]

text \<open>
  \<^verbatim>\<open>(\d{1,3})%\<close> matched at the head of \<open>s\<close>: the group. The matcher tries three digits,
  then two, then one, each followed by the percent sign.
\<close>

definition pct_at :: "nat \<Rightarrow> string \<Rightarrow> bool" where
  "pct_at k s = (k < length s \<and> list_all isdigit (take k s) \<and> s ! k = CHR ''%'')"

definition pct_match :: "string \<Rightarrow> string option" where
  "pct_match s =
     (if pct_at 3 s then Some (take 3 s)
      else if pct_at 2 s then Some (take 2 s)
      else if pct_at 1 s then Some (take 1 s)
      else None)"

text \<open>\<^verbatim>\<open>re.search(r"(\d{1,3})%", s)\<close>: group 1 of the leftmost match.\<close>

fun re_search_pct :: "string \<Rightarrow> string option" where
  "re_search_pct [] = None"
| "re_search_pct (c # cs) =
     (case pct_match (c # cs) of
        Some g \<Rightarrow> Some g
      | None \<Rightarrow> re_search_pct cs)"

text \<open>\<^verbatim>\<open>re.search(r"\d+", s)\<close>: the first maximal run of digits.\<close>

definition re_search_digits :: "string \<Rightarrow> string option" where
  "re_search_digits s =
     (let r = dropWhile (\<lambda>c. \<not> isdigit c) s in
      if r = [] then None else Some (takeWhile isdigit r))"

text \<open>\<^verbatim>\<open>re.findall(r'\d+', s)\<close>: all maximal runs of digits; \<open>cur\<close> is the run being read.\<close>

fun digit_runs :: "string \<Rightarrow> string \<Rightarrow> string list" where
  "digit_runs cur [] = (if cur = [] then [] else [cur])"
| "digit_runs cur (c # cs) =
     (if isdigit c then digit_runs (cur @ [c]) cs
      else (if cur = [] then [] else [cur]) @ digit_runs [] cs)"

definition re_findall_digits :: "string \<Rightarrow> string list" where
  "re_findall_digits s = digit_runs [] s"

section \<open>Result processing: \<^verbatim>\<open>parse_medications\<close>\<close>

text \<open>
  The body of the loop over the entries is given in stages. The list of the non-empty,
  stripped lines of an entry:
\<close>

definition entry_lines :: "string \<Rightarrow> string list" where
  "entry_lines entry =
     map py_strip (filter (\<lambda>line. py_strip line \<noteq> []) (py_split entry ''\<newline>''))"

text \<open>\<^verbatim>\<open>first_line.split("(")[0].split(":")[0].strip()\<close>\<close>

definition medication_name :: "string \<Rightarrow> exn + string" where
  "medication_name first_line =
     (case py_getitem (py_split first_line ''('') 0 of
        Inl e \<Rightarrow> Inl e
      | Inr before_paren \<Rightarrow>
          (case py_getitem (py_split before_paren '':'') 0 of
             Inl e \<Rightarrow> Inl e
           | Inr before_colon \<Rightarrow> Inr (py_strip before_colon)))"

text \<open>\<^verbatim>\<open>med_data["effectiveness"] = int(digits)\<close>\<close>

definition set_effectiveness :: "string \<Rightarrow> med_record \<Rightarrow> exn + med_record" where
  "set_effectiveness digits med_data =
     (case py_int digits of
        Inl e \<Rightarrow> Inl e
      | Inr n \<Rightarrow> Inr (AList.update ''effectiveness'' (PInt n) med_data))"

text \<open>The effectiveness, resolved from the first line (the \<^verbatim>\<open>if eff_match: ... elif ...\<close>).\<close>

definition first_line_effectiveness :: "string \<Rightarrow> med_record \<Rightarrow> exn + med_record" where
  "first_line_effectiveness first_line med_data =
     (case re_search_pct first_line of
        Some digits \<Rightarrow> set_effectiveness digits med_data
      | None \<Rightarrow>
          if py_in ''Effectiveness:'' first_line then
            (case py_getitem (py_split first_line ''Effectiveness:'') 1 of
               Inl e \<Rightarrow> Inl e
             | Inr after \<Rightarrow>
                 (let eff_text = py_strip after in
                  if py_in ''%'' eff_text then
                    (case re_search_pct eff_text of
                       Some digits \<Rightarrow> set_effectiveness digits med_data
                     | None \<Rightarrow> Inr med_data)
                  else
                    (case re_search_digits eff_text of
                       Some digits \<Rightarrow> set_effectiveness digits med_data
                     | None \<Rightarrow> Inr med_data)))
          else Inr med_data)"

text \<open>The key of a detail line: \<^verbatim>\<open>key.strip().lower().replace(" ", "_")\<close>\<close>

definition detail_key :: "string \<Rightarrow> string" where
  "detail_key key = py_replace (py_lower (py_strip key)) (CHR '' '') ''_''"

text \<open>The loop over the remaining lines of the entry.\<close>

fun process_details :: "string list \<Rightarrow> med_record \<Rightarrow> exn + med_record" where
  "process_details [] med_data = Inr med_data"
| "process_details (line # rest) med_data =
     (if py_in '':'' line then
        (case py_split_max1 line '':'' of
           [key, val] \<Rightarrow>
             process_details rest (AList.update (detail_key key) (PStr (py_strip val)) med_data)
         | _ \<Rightarrow> Inl (ValueError ''wrong number of values to unpack''))
      else if py_startswith line ''('' \<and> py_endswith line '')'' then
        process_details rest
          (AList.update ''additional_info'' (PStr (py_strip_chars line ''()'')) med_data)
      else process_details rest med_data)"

text \<open>The key under which one turn of that loop stores a value, if it stores one.\<close>

definition line_key :: "string \<Rightarrow> string option" where
  "line_key line =
     (if py_in '':'' line then
        (case py_split_max1 line '':'' of
           [key, val] \<Rightarrow> Some (detail_key key)
         | _ \<Rightarrow> None)
      else if py_startswith line ''('' \<and> py_endswith line '')'' then Some ''additional_info''
      else None)"

text \<open>One turn of the loop over the entries: \<open>None\<close> is the \<^verbatim>\<open>continue\<close>.\<close>

definition parse_entry :: "string \<Rightarrow> exn + med_record option" where
  "parse_entry entry =
     (case entry_lines entry of
        [] \<Rightarrow> Inr None
      | first_line # more_lines \<Rightarrow>
          (case medication_name first_line of
             Inl e \<Rightarrow> Inl e
           | Inr name \<Rightarrow>
               (case first_line_effectiveness first_line (AList.update ''name'' (PStr name) []) of
                  Inl e \<Rightarrow> Inl e
                | Inr med_data \<Rightarrow>
                    (case process_details more_lines med_data of
                       Inl e \<Rightarrow> Inl e
                     | Inr med_data' \<Rightarrow> Inr (Some med_data')))))"

fun parse_entries :: "string list \<Rightarrow> med_record list \<Rightarrow> exn + med_record list" where
  "parse_entries [] medications = Inr medications"
| "parse_entries (entry # entries) medications =
     (case parse_entry entry of
        Inl e \<Rightarrow> Inl e
      | Inr None \<Rightarrow> parse_entries entries medications
      | Inr (Some med_data) \<Rightarrow> parse_entries entries (medications @ [med_data]))"

definition parse_medications :: "string \<Rightarrow> exn + med_record list" where
  "parse_medications content =
     (case extract_section content ''## 3. Medication Recommendations'' of
        Inl e \<Rightarrow> Inl e
      | Inr med_section \<Rightarrow> parse_entries (drop 1 (re_split_bullets med_section)) [])"

text \<open>
  The entries of the medication section that the loop does not skip, in order: each one
  gives a record, or an exception that ends the function.
\<close>

definition recorded_entries :: "string \<Rightarrow> string list" where
  "recorded_entries med_section =
     filter (\<lambda>entry. entry_lines entry \<noteq> []) (drop 1 (re_split_bullets med_section))"

text \<open>
  The first lines on which \<^verbatim>\<open>int\<close> refuses the effectiveness: there is no match of the
  percent pattern, and the number read after \<^verbatim>\<open>Effectiveness:\<close> has more digits than the
  limit.
\<close>

definition effectiveness_beyond_limit :: "string \<Rightarrow> bool" where
  "effectiveness_beyond_limit first_line =
     (re_search_pct first_line = None \<and> py_in ''Effectiveness:'' first_line
      \<and> (let eff_text = py_strip (py_split first_line ''Effectiveness:'' ! 1) in
           \<not> py_in ''%'' eff_text
           \<and> (case re_search_digits eff_text of
                 Some digits \<Rightarrow> MAX_STR_DIGITS < length digits
               | None \<Rightarrow> False)))"

section \<open>Visualizations\<close>

text \<open>
  Of \<^verbatim>\<open>plot_medicine_effectiveness\<close>, the value appended to the list \<^verbatim>\<open>effectiveness\<close> for
  one record: the body of its loop.
\<close>

definition plot_medicine_effectiveness :: "med_record \<Rightarrow> exn + pyval" where
  "plot_medicine_effectiveness med =
     (let eff = dict_get med ''effectiveness'' (PInt 0) in
      (case eff of
         PStr s \<Rightarrow>
           (let numbers = re_findall_digits s in
            if numbers \<noteq> [] then
              (case py_getitem numbers 0 of
                 Inl e \<Rightarrow> Inl e
               | Inr ds \<Rightarrow> (case py_int ds of Inl e \<Rightarrow> Inl e | Inr n \<Rightarrow> Inr (PInt n)))
            else Inr (PInt 0))
       | PInt n \<Rightarrow> Inr (PInt n)))"

text \<open>
  Of \<^verbatim>\<open>render_medication_cards\<close>, the value of \<^verbatim>\<open>effectiveness\<close> shown on the card of one
  record. The \<^verbatim>\<open>try\<close> catches \<^verbatim>\<open>ValueError\<close> only.
\<close>

definition render_medication_cards :: "med_record \<Rightarrow> exn + pyval" where
  "render_medication_cards med =
     (let effectiveness = dict_get med ''effectiveness'' (PStr ''N/A'') in
      (case effectiveness of
         PStr s \<Rightarrow>
           if py_in ''%'' s then
             (case py_int (py_strip (py_replace s (CHR ''%'') [])) of
                Inr n \<Rightarrow> Inr (PInt n)
              | Inl (ValueError m) \<Rightarrow> Inr (PStr s)
              | Inl e \<Rightarrow> Inl e)
           else Inr (PStr s)
       | PInt n \<Rightarrow> Inr (PInt n)))"

text \<open>Of \<^verbatim>\<open>create_diagnosis_chart\<close>, the list \<^verbatim>\<open>sizes\<close> handed to the pie chart.\<close>

definition create_diagnosis_chart :: "string \<Rightarrow> exn + int list" where
  "create_diagnosis_chart content =
     (let sizes = [25, 25, 25, 25] in
      if py_in ''## 5. Disease Classification'' content then
        (case extract_section content ''## 5. Disease Classification'' of
           Inl e \<Rightarrow> Inl e
         | Inr section \<Rightarrow>
             (let classification = py_lower section;
                  sizes = (if py_in ''chronic'' classification then [40, 20, 20, 20] else sizes);
                  sizes = (if py_in ''infectious'' classification then [20, 40, 20, 20] else sizes);
                  sizes = (if py_in ''common'' classification then [20, 20, 40, 20] else sizes)
              in Inr sizes))
      else Inr sizes)"

section \<open>AI analysis: \<^verbatim>\<open>analyze_medical_report\<close>\<close>

definition MAX_RETRIES :: nat where
  "MAX_RETRIES = 3"

definition RETRY_DELAY :: nat where
  "RETRY_DELAY = 2"

definition ANALYSIS_TEMPLATE :: string where
  "ANALYSIS_TEMPLATE =
     ''\<newline>## 1. Key Findings\<newline>[Concise bullet points of important findings]\<newline>''
     @ ''\<newline>## 2. Potential Diagnoses\<newline>[List of possible diagnoses with confidence levels]\<newline>''
     @ ''\<newline>## 3. Medication Recommendations\<newline>''
     @ ''[Suggested medicines with effectiveness percentages, dosages, and side effects]\<newline>''
     @ ''\<newline>## 4. Lifestyle Guidance\<newline>''
     @ ''[Diet plans (vegetarian/non-vegetarian), exercise routines, sleep advice]\<newline>''
     @ ''\<newline>## 5. Disease Classification\<newline>''
     @ ''[Classification into chronic, infectious, common illnesses etc.]\<newline>''
     @ ''\<newline>## 6. Next Steps\<newline>[Recommended follow-up actions and timeline]\<newline>''"

definition prompt :: string where
  "prompt =
     ''\<newline>    Analyze this medical report and provide structured output with these exact section headers:\<newline>''
     @ ''\<newline>    '' @ ANALYSIS_TEMPLATE @ ''\<newline>''
     @ ''\<newline>    Additional requirements:\<newline>''
     @ ''    - Use concise, professional language\<newline>''
     @ ''    - Include relevant emojis for readability\<newline>''
     @ ''    - For medications, provide exact dosages when possible\<newline>''
     @ ''    - For diagnoses, include confidence percentages\<newline>''
     @ ''    - Format with clear markdown headers\<newline>    ''"

text \<open>The text sent at each attempt: \<^verbatim>\<open>f"{prompt}\n\n{content}"\<close>\<close>

definition request :: "string \<Rightarrow> string" where
  "request content = prompt @ ''\<newline>\<newline>'' @ content"

text \<open>
  What one call of \<^verbatim>\<open>model.generate_content\<close> does: it gives a response that has a text,
  or one that is empty or has no text, or it raises. The service is a function of the
  number of calls made before, and of the text sent.
\<close>

datatype service_outcome =
    Response_with_text string
  | Response_without_text
  | Service_raises exn

type_synonym service = "nat \<Rightarrow> string \<Rightarrow> service_outcome"

text \<open>The \<^verbatim>\<open>try\<close> block: the text returned, or the exception raised in it.\<close>

definition try_block :: "service_outcome \<Rightarrow> exn + string" where
  "try_block out =
     (case out of
        Response_with_text t \<Rightarrow> Inr t
      | Response_without_text \<Rightarrow> Inl (ValueError ''Invalid response from AI'')
      | Service_raises e \<Rightarrow> Inl e)"

text \<open>\<^verbatim>\<open>except (exceptions.GoogleAPIError, ValueError) as e\<close>, and \<^verbatim>\<open>str(e)\<close>.\<close>

definition caught :: "exn \<Rightarrow> bool" where
  "caught e = (case e of GoogleAPIError m \<Rightarrow> True | ValueError m \<Rightarrow> True | _ \<Rightarrow> False)"

definition exn_str :: "exn \<Rightarrow> string" where
  "exn_str e =
     (case e of GoogleAPIError m \<Rightarrow> m | ValueError m \<Rightarrow> m | IndexError m \<Rightarrow> m
      | OtherException m \<Rightarrow> m)"

text \<open>The effects of the function: the calls made, the sleeps, the messages of \<^verbatim>\<open>st.error\<close>.\<close>

record client_state =
  calls :: nat
  sleeps :: "nat list"
  shown_errors :: "string list"

text \<open>How a call of the function ends. A Python function that runs off its end returns
  \<^verbatim>\<open>None\<close>.\<close>

datatype py_return = Returns string | Returns_None | Raises exn

text \<open>The loop \<^verbatim>\<open>for attempt in range(MAX_RETRIES)\<close>, over the attempts still to make.\<close>

fun retry_loop :: "service \<Rightarrow> string \<Rightarrow> nat list \<Rightarrow> client_state \<Rightarrow> py_return \<times> client_state" where
  "retry_loop generate_content text [] st = (Returns_None, st)"
| "retry_loop generate_content text (attempt # rest) st =
     (let st1 = st\<lparr>calls := calls st + 1\<rparr> in
      (case try_block (generate_content (calls st) text) of
         Inr response_text \<Rightarrow> (Returns response_text, st1)
       | Inl e \<Rightarrow>
           if caught e then
             (if attempt < MAX_RETRIES - 1
              then retry_loop generate_content text rest (st1\<lparr>sleeps := sleeps st1 @ [RETRY_DELAY]\<rparr>)
              else (Returns ''AI analysis failed. Please try again later.'',
                    st1\<lparr>shown_errors := shown_errors st1
                           @ [''Failed to analyze the report. Error: '' @ exn_str e]\<rparr>))
           else (Raises e, st1)))"

definition analyze_medical_report :: "service \<Rightarrow> string \<Rightarrow> py_return \<times> client_state" where
  "analyze_medical_report generate_content content =
     retry_loop generate_content (request content) [0..<MAX_RETRIES]
       \<lparr>calls = 0, sleeps = [], shown_errors = []\<rparr>"

text \<open>
  An attempt fails in a way that the loop retries: the \<^verbatim>\<open>try\<close> block raises an exception
  that the \<^verbatim>\<open>except\<close> clause catches (a service error, or a response without a text).
\<close>

definition retryable_failure :: "service_outcome \<Rightarrow> bool" where
  "retryable_failure out = (case try_block out of Inl e \<Rightarrow> caught e | Inr t \<Rightarrow> False)"

text \<open>Three services to run the function on.\<close>

definition fails_twice_then_succeeds :: service where
  "fails_twice_then_succeeds n text =
     (if n = 0 then Service_raises (GoogleAPIError ''503 unavailable'')
      else if n = 1 then Response_without_text
      else Response_with_text ''## 1. Key Findings'')"

definition always_fails :: service where
  "always_fails n text = Service_raises (GoogleAPIError ''503 unavailable'')"

definition answers_with_failure_text :: service where
  "answers_with_failure_text n text =
     Response_with_text ''AI analysis failed. Please try again later.''"

text \<open>A report whose first section has the marker of a header inside a line of its body.\<close>

definition inline_marker_report :: string where
  "inline_marker_report =
     ''## 1. Key Findings\<newline>Use heading ## Notes inline\<newline>## 2. Potential Diagnoses\<newline>Flu''"

text \<open>A report whose classification names two of the keywords, with capitals.\<close>

definition chronic_then_common_report :: string where
  "chronic_then_common_report =
     ''## 5. Disease Classification\<newline>Chronic condition; not a Common cold\<newline>## 6. Next Steps\<newline>Rest''"

section \<open>The effectiveness-for-display rule of the specification\<close>

text \<open>
  The rule as the specification words it, to compare the code with: an integer is used as
  it is; of a string, the first integer substring found anywhere in it (the first maximal
  run of decimal digits); \<open>0\<close> when there is none or the field is absent.
\<close>

definition first_integer_substring :: "string \<Rightarrow> string" where
  "first_integer_substring s = takeWhile isdigit (dropWhile (\<lambda>c. \<not> isdigit c) s)"

definition spec_first_integer :: "string \<Rightarrow> int option" where
  "spec_first_integer s =
     (let ds = first_integer_substring s
      in if ds = [] then None else Some (int (digits_value ds)))"

definition spec_effectiveness_for_display :: "med_record \<Rightarrow> int" where
  "spec_effectiveness_for_display med =
     (case map_of med ''effectiveness'' of
        None \<Rightarrow> 0
      | Some (PInt n) \<Rightarrow> n
      | Some (PStr s) \<Rightarrow> (case spec_first_integer s of None \<Rightarrow> 0 | Some n \<Rightarrow> n))"

text \<open>
  The records on which \<^verbatim>\<open>int\<close> refuses the number to show: the effectiveness is a string
  whose first integer substring has more digits than the limit.
\<close>

definition first_integer_beyond_limit :: "med_record \<Rightarrow> bool" where
  "first_integer_beyond_limit med =
     (case map_of med ''effectiveness'' of
        Some (PStr s) \<Rightarrow> MAX_STR_DIGITS < length (first_integer_substring s)
      | _ \<Rightarrow> False)"

text \<open>Four medication records.\<close>

definition range_record :: med_record where
  "range_record = [(''name'', PStr ''Aspirin''), (''effectiveness'', PStr ''70-80%'')]"

definition integer_record :: med_record where
  "integer_record = [(''name'', PStr ''Paracetamol''), (''effectiveness'', PInt 85)]"

definition bare_record :: med_record where
  "bare_record = [(''name'', PStr ''Ibuprofen''), (''dosage'', PStr ''200mg twice daily'')]"

definition percent_record :: med_record where
  "percent_record = [(''name'', PStr ''Cetirizine''), (''effectiveness'', PStr ''85%'')]"

text \<open>
  A record whose effectiveness is a string of 4301 digits: a detail line
  \<^verbatim>\<open>Effectiveness:\<close> followed by these digits stores it.
\<close>

definition long_number_record :: med_record where
  "long_number_record =
     [(''name'', PStr ''Aspirin''), (''effectiveness'', PStr (replicate 4301 (CHR ''7'')))]"

text \<open>Three reports with a medication section, one entry, and the record parsed from the first report.\<close>

definition percent_of_value_report :: string where
  "percent_of_value_report =
     ''## 3. Medication Recommendations\<newline>- Vitamin D (150% of daily value)\<newline>  Dosage: 1 capsule''"

definition renamed_report :: string where
  "renamed_report =
     ''## 3. Medication Recommendations\<newline>- Pain relief\<newline>  Name: Paracetamol''"

definition range_report :: string where
  "range_report =
     ''## 3. Medication Recommendations\<newline>- Aspirin\<newline>  Effectiveness: 70-80%''"

definition paracetamol_entry :: string where
  "paracetamol_entry = ''Paracetamol (500mg) - Effectiveness: 85%\<newline>  Dosage: 1 tablet''"

definition percent_of_value_record :: med_record where
  "percent_of_value_record =
     [(''name'', PStr ''Vitamin D''), (''effectiveness'', PInt 150),
      (''dosage'', PStr ''1 capsule'')]"

section \<open>Properties of the analysis client\<close>

lemma retryable_failureE:
  assumes "retryable_failure out"
  obtains e where "try_block out = Inl e" and "caught e"
  using assms by (auto simp: retryable_failure_def split: sum.splits)

lemma upt_MAX_RETRIES: "[0..<MAX_RETRIES] = [0, 1, 2]"
  by (simp add: MAX_RETRIES_def upt_rec)

lemma analyze_attempts:
  "analyze_medical_report service content =
     retry_loop service (request content) [0, 1, 2] \<lparr>calls = 0, sleeps = [], shown_errors = []\<rparr>"
  by (simp add: analyze_medical_report_def upt_MAX_RETRIES)

lemma analyze_first_success:
  assumes "service 0 (request content) = Response_with_text t"
  shows "analyze_medical_report service content =
           (Returns t, \<lparr>calls = 1, sleeps = [], shown_errors = []\<rparr>)"
  using assms by (simp add: analyze_attempts try_block_def)

lemma analyze_second_success:
  assumes "retryable_failure (service 0 (request content))"
    and "service 1 (request content) = Response_with_text t"
  shows "analyze_medical_report service content =
           (Returns t, \<lparr>calls = 2, sleeps = [RETRY_DELAY], shown_errors = []\<rparr>)"
proof -
  from assms(1) obtain e0 where e0: "try_block (service 0 (request content)) = Inl e0" "caught e0"
    by (rule retryable_failureE)
  have t1: "try_block (service (Suc 0) (request content)) = Inr t"
    using assms(2) by (simp add: try_block_def)
  show ?thesis
    using e0 t1 by (simp add: analyze_attempts MAX_RETRIES_def)
qed

lemma analyze_third_success:
  assumes "retryable_failure (service 0 (request content))"
    and "retryable_failure (service 1 (request content))"
    and "service 2 (request content) = Response_with_text t"
  shows "analyze_medical_report service content =
           (Returns t, \<lparr>calls = 3, sleeps = [RETRY_DELAY, RETRY_DELAY], shown_errors = []\<rparr>)"
proof -
  from assms(1) obtain e0 where e0: "try_block (service 0 (request content)) = Inl e0" "caught e0"
    by (rule retryable_failureE)
  from assms(2) obtain e1 where e1: "try_block (service (Suc 0) (request content)) = Inl e1" "caught e1"
    by (auto elim: retryable_failureE)
  have t2: "try_block (service (Suc (Suc 0)) (request content)) = Inr t"
    using assms(3) by (simp add: try_block_def numeral_2_eq_2)
  show ?thesis
    using e0 e1 t2 by (simp add: analyze_attempts MAX_RETRIES_def numeral_2_eq_2)
qed

lemma analyze_all_fail:
  assumes "retryable_failure (service 0 (request content))"
    and "retryable_failure (service 1 (request content))"
    and "try_block (service 2 (request content)) = Inl e" and "caught e"
  shows "analyze_medical_report service content =
           (Returns ''AI analysis failed. Please try again later.'',
            \<lparr>calls = 3, sleeps = [RETRY_DELAY, RETRY_DELAY],
             shown_errors = [''Failed to analyze the report. Error: '' @ exn_str e]\<rparr>)"
proof -
  from assms(1) obtain e0 where e0: "try_block (service 0 (request content)) = Inl e0" "caught e0"
    by (rule retryable_failureE)
  from assms(2) obtain e1 where e1: "try_block (service (Suc 0) (request content)) = Inl e1" "caught e1"
    by (auto elim: retryable_failureE)
  have e2: "try_block (service (Suc (Suc 0)) (request content)) = Inl e"
    using assms(3) by (simp add: numeral_2_eq_2)
  show ?thesis
    using e0 e1 e2 assms(4)
    by (simp add: analyze_attempts MAX_RETRIES_def numeral_2_eq_2)
qed

lemma analyze_success_at:
  assumes "k < MAX_RETRIES"
    and "\<forall>i<k. retryable_failure (service i (request content))"
    and "service k (request content) = Response_with_text t"
  shows "analyze_medical_report service content =
          (Returns t, \<lparr>calls = k + 1, sleeps = replicate k RETRY_DELAY, shown_errors = []\<rparr>)"
proof -
  from assms(1) have "k = 0 \<or> k = 1 \<or> k = 2"
    by (auto simp: MAX_RETRIES_def)
  then show ?thesis
  proof (elim disjE)
    assume "k = 0"
    with assms show ?thesis by (simp add: analyze_first_success)
  next
    assume "k = 1"
    with assms show ?thesis by (simp add: analyze_second_success)
  next
    assume k: "k = 2"
    with assms have "retryable_failure (service 0 (request content))"
      and "retryable_failure (service 1 (request content))"
      and "service 2 (request content) = Response_with_text t"
      by auto
    then show ?thesis
      using k by (simp add: analyze_third_success numeral_2_eq_2)
  qed
qed

lemma always_fails_retryable: "retryable_failure (always_fails i text)"
  by (simp add: retryable_failure_def always_fails_def try_block_def caught_def)

lemma fails_twice_retryable:
  "\<forall>i<2. retryable_failure (fails_twice_then_succeeds i text)"
  by (simp add: retryable_failure_def fails_twice_then_succeeds_def try_block_def caught_def)

text \<open>
  Claim C1. For every service: when the first \<open>k\<close> attempts fail in a retryable way and
  attempt \<open>k\<close> (of at most three) gives a text, the function returns that text at once,
  having made \<open>k + 1\<close> calls and slept \<open>RETRY_DELAY\<close> exactly \<open>k\<close> times (no message is
  shown); for \<open>k = 2\<close> this is the service that fails twice and then succeeds: three calls,
  two sleeps. When every attempt fails, the function makes exactly \<open>MAX_RETRIES = 3\<close>
  calls, with two sleeps between them.
\<close>

theorem analyze_retry_policy:
  "(k < MAX_RETRIES \<and> (\<forall>i<k. retryable_failure (service i (request content)))
      \<and> service k (request content) = Response_with_text t
    \<longrightarrow> analyze_medical_report service content =
          (Returns t, \<lparr>calls = k + 1, sleeps = replicate k RETRY_DELAY, shown_errors = []\<rparr>))
   \<and> ((\<forall>i. retryable_failure (service i (request content)))
    \<longrightarrow> calls (snd (analyze_medical_report service content)) = MAX_RETRIES
        \<and> sleeps (snd (analyze_medical_report service content)) = [RETRY_DELAY, RETRY_DELAY])"
proof (intro conjI impI)
  assume "k < MAX_RETRIES \<and> (\<forall>i<k. retryable_failure (service i (request content)))
      \<and> service k (request content) = Response_with_text t"
  then show "analyze_medical_report service content =
          (Returns t, \<lparr>calls = k + 1, sleeps = replicate k RETRY_DELAY, shown_errors = []\<rparr>)"
    by (intro analyze_success_at) auto
next
  assume a: "\<forall>i. retryable_failure (service i (request content))"
  then obtain e where e: "try_block (service 2 (request content)) = Inl e" "caught e"
    by (auto elim: retryable_failureE)
  from a have r: "analyze_medical_report service content =
           (Returns ''AI analysis failed. Please try again later.'',
            \<lparr>calls = 3, sleeps = [RETRY_DELAY, RETRY_DELAY],
             shown_errors = [''Failed to analyze the report. Error: '' @ exn_str e]\<rparr>)"
    using e by (intro analyze_all_fail) auto
  show "calls (snd (analyze_medical_report service content)) = MAX_RETRIES"
    by (simp add: r MAX_RETRIES_def)
  show "sleeps (snd (analyze_medical_report service content)) = [RETRY_DELAY, RETRY_DELAY]"
    by (simp add: r)
qed

theorem analyze_retry_policy_witness:
  "(2::nat) < MAX_RETRIES
   \<and> retryable_failure (fails_twice_then_succeeds 0 (request ''report''))
   \<and> retryable_failure (fails_twice_then_succeeds 1 (request ''report''))
   \<and> fails_twice_then_succeeds 2 (request ''report'') = Response_with_text ''## 1. Key Findings''
   \<and> analyze_medical_report fails_twice_then_succeeds ''report'' =
        (Returns ''## 1. Key Findings'', \<lparr>calls = 3, sleeps = [2, 2], shown_errors = []\<rparr>)
   \<and> (\<forall>i. retryable_failure (always_fails i (request ''report'')))
   \<and> calls (snd (analyze_medical_report always_fails ''report'')) = 3
   \<and> sleeps (snd (analyze_medical_report always_fails ''report'')) = [2, 2]"
proof -
  have h1: "(2::nat) < MAX_RETRIES" by (simp add: MAX_RETRIES_def)
  have h2: "\<forall>i<2. retryable_failure (fails_twice_then_succeeds i (request ''report''))"
    by (rule fails_twice_retryable)
  have h3: "fails_twice_then_succeeds 2 (request ''report'') = Response_with_text ''## 1. Key Findings''"
    by (simp add: fails_twice_then_succeeds_def)
  have h4: "\<forall>i. retryable_failure (always_fails i (request ''report''))"
    by (simp add: always_fails_retryable)
  have h5: "retryable_failure (fails_twice_then_succeeds 0 (request ''report''))"
    "retryable_failure (fails_twice_then_succeeds 1 (request ''report''))"
    using h2 by simp_all
  show ?thesis
    using h1 h2 h3 h4 h5
      analyze_retry_policy [of 2 fails_twice_then_succeeds "''report''" "''## 1. Key Findings''"]
      analyze_retry_policy [of 0 always_fails "''report''" "''''"]
    by (simp add: MAX_RETRIES_def RETRY_DELAY_def numeral_2_eq_2)
qed

text \<open>
  Claim C2, as stated, fails: when the third attempt fails, the function returns a plain
  string, the very value it returns when the service answers with that text. Nothing in the
  value is a tag or a kind.
\<close>

theorem analyze_failure_tag_counterexample:
  "fst (analyze_medical_report always_fails ''report'')
     = Returns ''AI analysis failed. Please try again later.''
   \<and> fst (analyze_medical_report answers_with_failure_text ''report'')
     = Returns ''AI analysis failed. Please try again later.''"
proof
  have "try_block (always_fails 2 (request ''report'')) = Inl (GoogleAPIError ''503 unavailable'')"
    by (simp add: always_fails_def try_block_def)
  then show "fst (analyze_medical_report always_fails ''report'')
     = Returns ''AI analysis failed. Please try again later.''"
    by (simp add: analyze_all_fail always_fails_retryable caught_def)
next
  show "fst (analyze_medical_report answers_with_failure_text ''report'')
     = Returns ''AI analysis failed. Please try again later.''"
    by (simp add: analyze_first_success answers_with_failure_text_def)
qed

text \<open>
  Claim C2, amended. When the first two attempts fail in a retryable way and the third
  raises a caught exception \<open>e\<close>, the function does not raise: it shows the message
  \<^verbatim>\<open>Failed to analyze the report. Error: \<close> followed by \<open>str(e)\<close> and returns the plain
  string \<^verbatim>\<open>AI analysis failed. Please try again later.\<close>; when an attempt succeeds after
  retryable failures only, it returns the text of the response, as a plain string.
\<close>

theorem analyze_final_failure_returns_string:
  "(retryable_failure (service 0 (request content))
      \<and> retryable_failure (service 1 (request content))
      \<and> try_block (service 2 (request content)) = Inl e \<and> caught e
    \<longrightarrow> analyze_medical_report service content =
          (Returns ''AI analysis failed. Please try again later.'',
           \<lparr>calls = 3, sleeps = [RETRY_DELAY, RETRY_DELAY],
            shown_errors = [''Failed to analyze the report. Error: '' @ exn_str e]\<rparr>))
   \<and> (k < MAX_RETRIES \<and> (\<forall>i<k. retryable_failure (service i (request content)))
      \<and> service k (request content) = Response_with_text t
    \<longrightarrow> fst (analyze_medical_report service content) = Returns t)"
proof (intro conjI impI)
  assume "retryable_failure (service 0 (request content))
      \<and> retryable_failure (service 1 (request content))
      \<and> try_block (service 2 (request content)) = Inl e \<and> caught e"
  then show "analyze_medical_report service content =
          (Returns ''AI analysis failed. Please try again later.'',
           \<lparr>calls = 3, sleeps = [RETRY_DELAY, RETRY_DELAY],
            shown_errors = [''Failed to analyze the report. Error: '' @ exn_str e]\<rparr>)"
    by (intro analyze_all_fail) auto
next
  assume "k < MAX_RETRIES \<and> (\<forall>i<k. retryable_failure (service i (request content)))
      \<and> service k (request content) = Response_with_text t"
  then have "analyze_medical_report service content =
          (Returns t, \<lparr>calls = k + 1, sleeps = replicate k RETRY_DELAY, shown_errors = []\<rparr>)"
    by (intro analyze_success_at) auto
  then show "fst (analyze_medical_report service content) = Returns t"
    by simp
qed

theorem analyze_final_failure_returns_string_witness:
  "retryable_failure (always_fails 0 (request ''report''))
   \<and> retryable_failure (always_fails 1 (request ''report''))
   \<and> try_block (always_fails 2 (request ''report'')) = Inl (GoogleAPIError ''503 unavailable'')
   \<and> caught (GoogleAPIError ''503 unavailable'')
   \<and> analyze_medical_report always_fails ''report'' =
        (Returns ''AI analysis failed. Please try again later.'',
         \<lparr>calls = 3, sleeps = [2, 2],
          shown_errors = [''Failed to analyze the report. Error: 503 unavailable'']\<rparr>)
   \<and> (2::nat) < MAX_RETRIES
   \<and> retryable_failure (fails_twice_then_succeeds 0 (request ''report''))
   \<and> retryable_failure (fails_twice_then_succeeds 1 (request ''report''))
   \<and> fails_twice_then_succeeds 2 (request ''report'') = Response_with_text ''## 1. Key Findings''
   \<and> fst (analyze_medical_report fails_twice_then_succeeds ''report'')
        = Returns ''## 1. Key Findings''"
proof -
  have h1: "try_block (always_fails 2 (request ''report'')) = Inl (GoogleAPIError ''503 unavailable'')"
    by (simp add: always_fails_def try_block_def)
  have h2: "caught (GoogleAPIError ''503 unavailable'')"
    by (simp add: caught_def)
  have h3: "fails_twice_then_succeeds 2 (request ''report'') = Response_with_text ''## 1. Key Findings''"
    by (simp add: fails_twice_then_succeeds_def)
  have h4: "\<forall>i<2. retryable_failure (fails_twice_then_succeeds i (request ''report''))"
    by (rule fails_twice_retryable)
  have h5: "retryable_failure (fails_twice_then_succeeds 0 (request ''report''))"
    "retryable_failure (fails_twice_then_succeeds 1 (request ''report''))"
    using h4 by simp_all
  show ?thesis
    using h1 h2 h3 h4 h5
      analyze_final_failure_returns_string
        [of always_fails "''report''" "GoogleAPIError ''503 unavailable''" 0 "[]"]
      analyze_final_failure_returns_string
        [of fails_twice_then_succeeds "''report''" "GoogleAPIError ''503 unavailable''" 2
            "''## 1. Key Findings''"]
    by (simp add: always_fails_retryable MAX_RETRIES_def RETRY_DELAY_def exn_str_def)
qed

text \<open>
  Claim C10. For every content and every service whose three attempts all fail in a
  retryable way, the value returned is the string
  \<^verbatim>\<open>AI analysis failed. Please try again later.\<close>, and it carries nothing that tells it from
  a success: a service that answers the first call with that text makes the function
  return the same value.
\<close>

theorem analyze_failure_is_plain_string:
  assumes "\<forall>i<MAX_RETRIES. retryable_failure (service i (request content))"
  shows "fst (analyze_medical_report service content)
           = Returns ''AI analysis failed. Please try again later.''
         \<and> (\<exists>succeeding t. succeeding 0 (request content) = Response_with_text t
              \<and> fst (analyze_medical_report succeeding content)
                  = fst (analyze_medical_report service content))"
proof -
  from assms have f: "retryable_failure (service 0 (request content))"
    "retryable_failure (service 1 (request content))"
    "retryable_failure (service 2 (request content))"
    by (simp_all add: MAX_RETRIES_def)
  from f(3) obtain e where e: "try_block (service 2 (request content)) = Inl e" "caught e"
    by (rule retryable_failureE)
  have r: "fst (analyze_medical_report service content)
           = Returns ''AI analysis failed. Please try again later.''"
    using analyze_all_fail [of service content e] f e by simp
  have "answers_with_failure_text 0 (request content)
          = Response_with_text ''AI analysis failed. Please try again later.''"
    by (simp add: answers_with_failure_text_def)
  moreover from this have "fst (analyze_medical_report answers_with_failure_text content)
          = Returns ''AI analysis failed. Please try again later.''"
    by (simp add: analyze_first_success)
  ultimately show ?thesis
    using r by metis
qed

theorem analyze_failure_is_plain_string_witness:
  "(\<forall>i. retryable_failure (always_fails i (request ''report'')))
   \<and> fst (analyze_medical_report always_fails ''report'')
        = Returns ''AI analysis failed. Please try again later.''
   \<and> (\<exists>succeeding t. succeeding 0 (request ''report'') = Response_with_text t
        \<and> fst (analyze_medical_report succeeding ''report'')
            = fst (analyze_medical_report always_fails ''report''))"
proof -
  have h: "\<forall>i<MAX_RETRIES. retryable_failure (always_fails i (request ''report''))"
    by (simp add: always_fails_retryable)
  show ?thesis
    using h analyze_failure_is_plain_string [of always_fails "''report''"]
    by (auto simp: always_fails_retryable)
qed

section \<open>Properties of the string primitives\<close>

lemma py_startswith_prefix: "py_startswith s p \<longleftrightarrow> prefix p s"
  unfolding py_startswith_def
  by (metis append_eq_conv_conj prefix_def take_is_prefix)

lemma find_at_SomeD:
  "find_at sub s k = Some i \<Longrightarrow>
     k \<le> i \<and> i - k \<le> length s \<and> prefix sub (drop (i - k) s)
     \<and> (\<forall>j<i - k. \<not> prefix sub (drop j s))"
proof (induction s arbitrary: k)
  case Nil
  then show ?case by (simp split: if_splits)
next
  case (Cons c cs)
  show ?case
  proof (cases "prefix sub (c # cs)")
    case True
    with Cons.prems show ?thesis by (simp add: py_startswith_prefix)
  next
    case False
    with Cons.prems have f: "find_at sub cs (Suc k) = Some i"
      by (simp add: py_startswith_prefix)
    from Cons.IH [OF f] have ih: "Suc k \<le> i" "i - Suc k \<le> length cs"
      "prefix sub (drop (i - Suc k) cs)" "\<forall>j<i - Suc k. \<not> prefix sub (drop j cs)"
      by auto
    from ih(1) have d: "i - k = Suc (i - Suc k)" by simp
    have "\<not> prefix sub (drop j (c # cs))" if "j < i - k" for j
    proof (cases j)
      case 0
      with False show ?thesis by simp
    next
      case (Suc j')
      with that d have "j' < i - Suc k" by simp
      with ih(4) Suc show ?thesis by simp
    qed
    with ih d show ?thesis by simp
  qed
qed

lemma find_at_NoneD:
  "find_at sub s k = None \<Longrightarrow> j \<le> length s \<Longrightarrow> \<not> prefix sub (drop j s)"
proof (induction s arbitrary: k j)
  case Nil
  then show ?case by (simp split: if_splits)
next
  case (Cons c cs)
  from Cons.prems(1) have np: "\<not> prefix sub (c # cs)" and f: "find_at sub cs (Suc k) = None"
    by (simp_all add: py_startswith_prefix split: if_splits)
  show ?case
  proof (cases j)
    case 0
    with np show ?thesis by simp
  next
    case (Suc j')
    with Cons.prems(2) have "j' \<le> length cs" by simp
    from Cons.IH [OF f this] Suc show ?thesis by simp
  qed
qed

lemma py_find_SomeD:
  assumes "py_find s sub start = Some i"
  shows "start \<le> i" and "i \<le> length s" and "prefix sub (drop i s)"
    and "\<And>j. start \<le> j \<Longrightarrow> j < i \<Longrightarrow> \<not> prefix sub (drop j s)"
proof -
  from assms have le: "start \<le> length s" and f: "find_at sub (drop start s) start = Some i"
    by (simp_all add: py_find_def split: if_splits)
  from find_at_SomeD [OF f] have a: "start \<le> i" "i - start \<le> length (drop start s)"
    "prefix sub (drop (i - start) (drop start s))"
    "\<forall>j<i - start. \<not> prefix sub (drop j (drop start s))"
    by auto
  show "start \<le> i" by (rule a(1))
  show "i \<le> length s" using a(1,2) le by simp
  show "prefix sub (drop i s)" using a(1,3) by simp
  show "\<not> prefix sub (drop j s)" if "start \<le> j" "j < i" for j
  proof -
    from that have "j - start < i - start" by simp
    with a(4) have "\<not> prefix sub (drop (j - start) (drop start s))" by blast
    with that show ?thesis by simp
  qed
qed

lemma py_find_NoneD:
  assumes "py_find s sub start = None" and "start \<le> j" and "j \<le> length s"
  shows "\<not> prefix sub (drop j s)"
proof -
  from assms have f: "find_at sub (drop start s) start = None"
    by (simp add: py_find_def split: if_splits)
  from assms have "j - start \<le> length (drop start s)" by simp
  from find_at_NoneD [OF f this] assms show ?thesis by simp
qed

lemma sublist_iff_prefix_drop:
  "sublist sub s \<longleftrightarrow> (\<exists>j\<le>length s. prefix sub (drop j s))"
proof
  assume "sublist sub s"
  then obtain ps ss where "s = ps @ sub @ ss" by (auto simp: sublist_def)
  then have "length ps \<le> length s" "prefix sub (drop (length ps) s)" by simp_all
  then show "\<exists>j\<le>length s. prefix sub (drop j s)" by blast
next
  assume "\<exists>j\<le>length s. prefix sub (drop j s)"
  then obtain j where "prefix sub (drop j s)" by blast
  then obtain ss where "drop j s = sub @ ss" by (auto simp: prefix_def)
  then have "s = take j s @ sub @ ss" by (metis append_take_drop_id)
  then show "sublist sub s" by (auto simp: sublist_def)
qed

lemma py_in_sublist: "py_in sub s \<longleftrightarrow> sublist sub s"
proof
  assume "py_in sub s"
  then obtain i where "py_find s sub 0 = Some i" by (auto simp: py_in_def)
  from py_find_SomeD(2,3) [OF this] show "sublist sub s"
    by (auto simp: sublist_iff_prefix_drop)
next
  assume "sublist sub s"
  then obtain j where j: "j \<le> length s" "prefix sub (drop j s)"
    by (auto simp: sublist_iff_prefix_drop)
  show "py_in sub s"
  proof (rule ccontr)
    assume "\<not> py_in sub s"
    then have "py_find s sub 0 = None" by (simp add: py_in_def)
    from py_find_NoneD [OF this _ j(1)] j(2) show False by simp
  qed
qed

lemma extract_section_absent:
  assumes "\<not> sublist header text"
  shows "extract_section text header
           = Inr (''## '' @ header @ ''\<newline>No information found in this section.'')"
  using assms by (simp add: extract_section_def py_in_sublist)

lemma extract_section_present:
  assumes "sublist header text"
  obtains pre body post where
    "text = pre @ header @ body @ post"
    and "\<forall>j<length pre. \<not> prefix header (drop j text)"
    and "\<forall>j<length body. \<not> prefix ''## '' (drop j (body @ post))"
    and "post = [] \<or> prefix ''## '' post"
    and "extract_section text header = Inr (py_strip (header @ body))"
proof -
  from assms obtain i where i: "py_find text header 0 = Some i"
    by (auto simp: py_in_sublist [symmetric] py_in_def)
  note fi = py_find_SomeD [OF i]
  define pre where "pre = take i text"
  define rem where "rem = drop i text"
  from fi(3) obtain rest where rest: "rem = header @ rest"
    by (auto simp: prefix_def rem_def)
  have t_eq: "text = pre @ header @ rest"
    using rest by (simp add: pre_def rem_def [symmetric])
       (metis append_take_drop_id rem_def)
  have lpre: "length pre = i" using fi(2) by (simp add: pre_def)
  have first: "\<forall>j<length pre. \<not> prefix header (drop j text)"
    using fi(4) lpre by simp
  have ex: "extract_section text header =
      (case py_find rem ''## '' (length header) of
         Some p \<Rightarrow> Inr (py_strip (take p rem))
       | None \<Rightarrow> Inr (py_strip rem))"
    unfolding rem_def using assms i
    by (simp add: extract_section_def py_in_sublist py_index_def Let_def)
  show ?thesis
  proof (cases "py_find rem ''## '' (length header)")
    case None
    have "\<not> prefix ''## '' (drop j (rest @ []))" if "j < length rest" for j
    proof -
      have "length header + j \<le> length rem" using that rest by simp
      from py_find_NoneD [OF None _ this] show ?thesis by (simp add: rest)
    qed
    moreover have "extract_section text header = Inr (py_strip (header @ rest))"
      using ex None rest by simp
    ultimately show ?thesis
      using that [of pre rest "[]"] t_eq first by simp
  next
    case (Some p)
    note fp = py_find_SomeD [OF Some]
    define body where "body = take (p - length header) rest"
    define post where "post = drop (p - length header) rest"
    have rest_split: "rest = body @ post" by (simp add: body_def post_def)
    have lbody: "length body = p - length header"
      using fp(2) rest by (simp add: body_def)
    have tk: "take p rem = header @ body"
      using fp(1) by (simp add: rest body_def)
    have dp: "drop p rem = post"
      using fp(1) by (simp add: rest post_def)
    have nob: "\<not> prefix ''## '' (drop j (body @ post))" if "j < length body" for j
    proof -
      from that lbody have "length header \<le> length header + j" "length header + j < p" by simp_all
      from fp(4) [OF this] show ?thesis by (simp add: rest rest_split)
    qed
    have "prefix ''## '' post" using fp(3) dp by simp
    moreover have "extract_section text header = Inr (py_strip (header @ body))"
      using ex Some tk by simp
    moreover have "text = pre @ header @ body @ post"
      using t_eq rest_split by simp
    ultimately show ?thesis
      using that [of pre body post] first nob by simp
  qed
qed

lemma py_strip_nonempty:
  assumes "\<exists>c\<in>set s. \<not> isspace c"
  shows "py_strip s \<noteq> []"
proof -
  from assms have "dropWhile isspace s \<noteq> []" by (simp add: dropWhile_eq_Nil_conv)
  moreover have "\<exists>c\<in>set (dropWhile isspace s). \<not> isspace c"
    using assms by (metis calculation hd_dropWhile hd_in_set)
  then have "dropWhile isspace (rev (dropWhile isspace s)) \<noteq> []"
    by (simp add: dropWhile_eq_Nil_conv)
  then show ?thesis by (simp add: py_strip_def)
qed

section \<open>Properties of \<^verbatim>\<open>extract_section\<close> and of the degenerate parse\<close>

lemma extract_section_total: "\<exists>r. extract_section text header = Inr r"
proof (cases "sublist header text")
  case True
  then show ?thesis by (rule extract_section_present) simp
next
  case False
  then show ?thesis by (simp add: extract_section_absent)
qed

lemma inline_marker_sublist: "sublist ''## 1. Key Findings'' inline_marker_report"
  by (simp add: py_in_sublist [symmetric] py_in_def py_find_def py_startswith_def
      inline_marker_report_def)

lemma placeholder_no_bullet:
  "bullet_search (''## '' @ ''## 3. Medication Recommendations''
      @ ''\<newline>No information found in this section.'') 0 = None"
  by (simp add: bullet_match_def isspace_def)

text \<open>
  Claim C3, as stated, fails. In the report below the body of the first section has the
  three characters \<^verbatim>\<open>## \<close> in the middle of a line; the section returned stops there, and
  not at the next header line. (The text returned is stripped as well.)
\<close>

theorem extract_section_inline_marker_counterexample:
  "extract_section inline_marker_report ''## 1. Key Findings''
     = Inr ''## 1. Key Findings\<newline>Use heading''
   \<and> extract_section inline_marker_report ''## 1. Key Findings''
     \<noteq> Inr ''## 1. Key Findings\<newline>Use heading ## Notes inline\<newline>''"
  by (simp add: extract_section_def py_in_def py_index_def py_find_def py_startswith_def
      py_strip_def isspace_def inline_marker_report_def)

text \<open>
  Claim C3, amended. For every text and header where the header occurs in the text, the
  text splits as \<open>pre @ header @ body @ post\<close>, where \<open>header\<close> does not begin at any
  index inside \<open>pre\<close> (the first occurrence), no occurrence of \<^verbatim>\<open>## \<close> begins inside
  \<open>body\<close>, and \<open>post\<close> is empty or begins with \<^verbatim>\<open>## \<close>; the function returns
  \<open>header @ body\<close> with the whitespace at both ends stripped. Any occurrence of \<^verbatim>\<open>## \<close>
  at or after the end of the header ends the section, at the start of a line or not.
\<close>

theorem extract_section_decomposition:
  assumes "sublist header text"
  shows "\<exists>pre body post.
           text = pre @ header @ body @ post
         \<and> (\<forall>j<length pre. \<not> prefix header (drop j text))
         \<and> (\<forall>j<length body. \<not> prefix ''## '' (drop j (body @ post)))
         \<and> (post = [] \<or> prefix ''## '' post)
         \<and> extract_section text header = Inr (py_strip (header @ body))"
  using extract_section_present [OF assms] by metis

theorem extract_section_decomposition_witness:
  "sublist ''## 1. Key Findings'' inline_marker_report
   \<and> (\<exists>pre body post.
           inline_marker_report = pre @ ''## 1. Key Findings'' @ body @ post
         \<and> (\<forall>j<length pre. \<not> prefix ''## 1. Key Findings'' (drop j inline_marker_report))
         \<and> (\<forall>j<length body. \<not> prefix ''## '' (drop j (body @ post)))
         \<and> (post = [] \<or> prefix ''## '' post)
         \<and> extract_section inline_marker_report ''## 1. Key Findings''
             = Inr (py_strip (''## 1. Key Findings'' @ body)))"
  using inline_marker_sublist
    extract_section_decomposition [of "''## 1. Key Findings''" inline_marker_report]
  by simp

text \<open>
  Claim C4, as stated, fails: for the empty header in the empty text the function returns
  the empty string.
\<close>

theorem extract_section_empty_counterexample:
  "extract_section [] [] = Inr []"
  by (simp add: extract_section_def py_in_def py_index_def py_find_def py_strip_def)

text \<open>
  Claim C4, amended. For every text, and every header that has a character other than
  whitespace, the function returns a non-empty string; and for every text and header,
  when the header does not occur in the text the string returned is \<^verbatim>\<open>## \<close>, the
  header, a newline and \<^verbatim>\<open>No information found in this section.\<close>
\<close>

theorem extract_section_nonempty:
  "((\<exists>c\<in>set header. \<not> isspace c)
      \<longrightarrow> (\<exists>r. extract_section text header = Inr r \<and> r \<noteq> []))
   \<and> (\<not> sublist header text
      \<longrightarrow> extract_section text header
            = Inr (''## '' @ header @ ''\<newline>No information found in this section.''))"
proof (intro conjI impI)
  assume ns: "\<exists>c\<in>set header. \<not> isspace c"
  show "\<exists>r. extract_section text header = Inr r \<and> r \<noteq> []"
  proof (cases "sublist header text")
    case True
    then obtain pre body post
      where "extract_section text header = Inr (py_strip (header @ body))"
      by (rule extract_section_present)
    moreover from ns have "py_strip (header @ body) \<noteq> []"
      by (intro py_strip_nonempty) auto
    ultimately show ?thesis by simp
  next
    case False
    then show ?thesis by (simp add: extract_section_absent)
  qed
next
  assume "\<not> sublist header text"
  then show "extract_section text header
            = Inr (''## '' @ header @ ''\<newline>No information found in this section.'')"
    by (rule extract_section_absent)
qed

theorem extract_section_nonempty_witness:
  "\<not> isspace (CHR ''#'') \<and> CHR ''#'' \<in> set ''## 4. Lifestyle Guidance''
   \<and> (\<exists>r. extract_section inline_marker_report ''## 4. Lifestyle Guidance'' = Inr r \<and> r \<noteq> [])
   \<and> \<not> sublist ''## 4. Lifestyle Guidance'' inline_marker_report
   \<and> extract_section inline_marker_report ''## 4. Lifestyle Guidance''
        = Inr ''## ## 4. Lifestyle Guidance\<newline>No information found in this section.''"
proof -
  have h0: "\<not> isspace (CHR ''#'')" "CHR ''#'' \<in> set ''## 4. Lifestyle Guidance''"
    by (simp_all add: isspace_def)
  then have h1: "\<exists>c\<in>set ''## 4. Lifestyle Guidance''. \<not> isspace c"
    by blast
  have h2: "\<not> sublist ''## 4. Lifestyle Guidance'' inline_marker_report"
    by (simp add: py_in_sublist [symmetric] py_in_def py_find_def py_startswith_def
        inline_marker_report_def)
  show ?thesis
    using h0 h1 h2
      extract_section_nonempty [of "''## 4. Lifestyle Guidance''" inline_marker_report]
    by simp
qed

text \<open>
  Claim C9. \<^verbatim>\<open>parse_medications\<close> returns the empty list, and raises nothing, on the empty
  string and on every text in which the header \<^verbatim>\<open>## 3. Medication Recommendations\<close> does
  not occur.
\<close>

theorem parse_medications_degenerate:
  "parse_medications [] = Inr []
   \<and> (\<not> sublist ''## 3. Medication Recommendations'' text \<longrightarrow> parse_medications text = Inr [])"
proof (intro conjI impI)
  have absent: "parse_medications t = Inr []"
    if "\<not> sublist ''## 3. Medication Recommendations'' t" for t
    using that placeholder_no_bullet
    by (simp add: parse_medications_def extract_section_absent re_split_bullets.simps)
  show "parse_medications [] = Inr []"
    by (rule absent) simp
  show "parse_medications text = Inr []"
    if "\<not> sublist ''## 3. Medication Recommendations'' text"
    using that by (rule absent)
qed

theorem parse_medications_degenerate_witness:
  "parse_medications [] = Inr []
   \<and> \<not> sublist ''## 3. Medication Recommendations'' inline_marker_report
   \<and> parse_medications inline_marker_report = Inr []"
proof -
  have h: "\<not> sublist ''## 3. Medication Recommendations'' inline_marker_report"
    by (simp add: py_in_sublist [symmetric] py_in_def py_find_def py_startswith_def
        inline_marker_report_def)
  show ?thesis
    using h parse_medications_degenerate [of inline_marker_report] by simp
qed

section \<open>Properties of the classification weighting\<close>

lemma create_diagnosis_chart_present:
  assumes "sublist ''## 5. Disease Classification'' content"
    and "extract_section content ''## 5. Disease Classification'' = Inr section"
  shows "create_diagnosis_chart content =
           Inr (if sublist ''common'' (py_lower section) then [20, 20, 40, 20]
                else if sublist ''infectious'' (py_lower section) then [20, 40, 20, 20]
                else if sublist ''chronic'' (py_lower section) then [40, 20, 20, 20]
                else [25, 25, 25, 25])"
  using assms by (simp add: create_diagnosis_chart_def py_in_sublist Let_def)

lemma chronic_then_common_section:
  "extract_section chronic_then_common_report ''## 5. Disease Classification''
     = Inr ''## 5. Disease Classification\<newline>Chronic condition; not a Common cold''"
  by (simp add: extract_section_def py_in_def py_index_def py_find_def py_startswith_def
      py_strip_def isspace_def chronic_then_common_report_def)

text \<open>
  Claim C6. The list of sizes starts as \<open>[25, 25, 25, 25]\<close> and stays so when the header
  \<^verbatim>\<open>## 5. Disease Classification\<close> does not occur. When it occurs, the three checks
  \<^verbatim>\<open>chronic\<close>, \<^verbatim>\<open>infectious\<close>, \<^verbatim>\<open>common\<close> run in this order on the lower-cased section,
  each one that matches overwriting the list: the result is that of the last keyword, in
  this order, that occurs in the lower-cased section. In particular a section with both
  \<^verbatim>\<open>chronic\<close> and \<^verbatim>\<open>common\<close> gives \<open>[20, 20, 40, 20]\<close>, whatever their order in the text.
\<close>

theorem create_diagnosis_chart_last_match_wins:
  "(\<not> sublist ''## 5. Disease Classification'' content
      \<longrightarrow> create_diagnosis_chart content = Inr [25, 25, 25, 25])
   \<and> (sublist ''## 5. Disease Classification'' content
      \<longrightarrow> (\<exists>section.
            extract_section content ''## 5. Disease Classification'' = Inr section
          \<and> create_diagnosis_chart content =
              Inr (if sublist ''common'' (py_lower section) then [20, 20, 40, 20]
                   else if sublist ''infectious'' (py_lower section) then [20, 40, 20, 20]
                   else if sublist ''chronic'' (py_lower section) then [40, 20, 20, 20]
                   else [25, 25, 25, 25])
          \<and> (sublist ''chronic'' (py_lower section) \<and> sublist ''common'' (py_lower section)
              \<longrightarrow> create_diagnosis_chart content = Inr [20, 20, 40, 20])))"
proof (intro conjI impI)
  assume "\<not> sublist ''## 5. Disease Classification'' content"
  then show "create_diagnosis_chart content = Inr [25, 25, 25, 25]"
    by (simp add: create_diagnosis_chart_def py_in_sublist)
next
  assume present: "sublist ''## 5. Disease Classification'' content"
  obtain sec where s: "extract_section content ''## 5. Disease Classification'' = Inr sec"
    using extract_section_total by blast
  note chart = create_diagnosis_chart_present [OF present s]
  have "create_diagnosis_chart content = Inr [20, 20, 40, 20]"
    if "sublist ''chronic'' (py_lower sec) \<and> sublist ''common'' (py_lower sec)"
    using that by (simp add: chart)
  with s chart show "\<exists>section.
            extract_section content ''## 5. Disease Classification'' = Inr section
          \<and> create_diagnosis_chart content =
              Inr (if sublist ''common'' (py_lower section) then [20, 20, 40, 20]
                   else if sublist ''infectious'' (py_lower section) then [20, 40, 20, 20]
                   else if sublist ''chronic'' (py_lower section) then [40, 20, 20, 20]
                   else [25, 25, 25, 25])
          \<and> (sublist ''chronic'' (py_lower section) \<and> sublist ''common'' (py_lower section)
              \<longrightarrow> create_diagnosis_chart content = Inr [20, 20, 40, 20])"
    by blast
qed

theorem create_diagnosis_chart_last_match_wins_witness:
  "sublist ''## 5. Disease Classification'' chronic_then_common_report
   \<and> \<not> sublist ''## 5. Disease Classification'' inline_marker_report
   \<and> create_diagnosis_chart inline_marker_report = Inr [25, 25, 25, 25]
   \<and> extract_section chronic_then_common_report ''## 5. Disease Classification''
       = Inr ''## 5. Disease Classification\<newline>Chronic condition; not a Common cold''
   \<and> sublist ''chronic''
        (py_lower ''## 5. Disease Classification\<newline>Chronic condition; not a Common cold'')
   \<and> sublist ''common''
        (py_lower ''## 5. Disease Classification\<newline>Chronic condition; not a Common cold'')
   \<and> create_diagnosis_chart chronic_then_common_report = Inr [20, 20, 40, 20]"
proof -
  have h1: "sublist ''## 5. Disease Classification'' chronic_then_common_report"
    by (simp add: py_in_sublist [symmetric] py_in_def py_find_def py_startswith_def
        chronic_then_common_report_def)
  have h2: "\<not> sublist ''## 5. Disease Classification'' inline_marker_report"
    by (simp add: py_in_sublist [symmetric] py_in_def py_find_def py_startswith_def
        inline_marker_report_def)
  have h4: "py_lower ''## 5. Disease Classification\<newline>Chronic condition; not a Common cold''
     = ''## 5. disease classification\<newline>chronic condition; not a common cold''"
    by code_simp
  have h3: "sublist ''chronic''
        (py_lower ''## 5. Disease Classification\<newline>Chronic condition; not a Common cold'')"
    "sublist ''common''
        (py_lower ''## 5. Disease Classification\<newline>Chronic condition; not a Common cold'')"
    unfolding h4
    by (simp_all add: py_in_sublist [symmetric] py_in_def py_find_def py_startswith_def)
  show ?thesis
    using h1 h2 h3 chronic_then_common_section
      create_diagnosis_chart_last_match_wins [of chronic_then_common_report]
      create_diagnosis_chart_last_match_wins [of inline_marker_report]
    by simp
qed

section \<open>Properties of the numbers, the splits and the regular expressions\<close>

lemma isdigit_not_special:
  assumes "isdigit c"
  shows "\<not> int_isspace c" and "c \<noteq> CHR ''-''" and "c \<noteq> CHR ''+''" and "c \<noteq> CHR ''_''"
  using assms by (auto simp: isdigit_def int_isspace_def)

lemma dropWhile_hd_id: "xs \<noteq> [] \<Longrightarrow> \<not> P (hd xs) \<Longrightarrow> dropWhile P xs = xs"
  by (cases xs) auto

lemma digits_no_double_underscore:
  assumes "list_all isdigit ds"
  shows "\<not> py_in ''__'' ds"
proof
  assume "py_in ''__'' ds"
  then have "sublist ''__'' ds" by (simp add: py_in_sublist)
  then have "set ''__'' \<subseteq> set ds" by (rule set_mono_sublist)
  then have "CHR ''_'' \<in> set ds" by simp
  with assms have "isdigit (CHR ''_'')" by (simp add: list_all_iff)
  then show False by (simp add: isdigit_def)
qed

lemma py_int_digits:
  assumes "ds \<noteq> []" and "list_all isdigit ds"
  shows "py_int ds =
           (if MAX_STR_DIGITS < length ds
            then Inl (ValueError ''Exceeds the limit (4300 digits) for integer string conversion'')
            else Inr (int (digits_value ds)))"
proof -
  from assms have h: "isdigit (hd ds)" and l: "isdigit (last ds)"
    by (simp_all add: list_all_iff)
  have d1: "dropWhile int_isspace ds = ds"
    using assms(1) h by (intro dropWhile_hd_id) (auto dest: isdigit_not_special)
  have d2: "dropWhile int_isspace (rev ds) = rev ds"
    using assms(1) l by (intro dropWhile_hd_id) (auto simp: hd_rev dest: isdigit_not_special)
  have strip: "rev (dropWhile int_isspace (rev (dropWhile int_isspace ds))) = ds"
    by (simp add: d1 d2)
  have nosign: "hd ds \<noteq> CHR ''-''" "hd ds \<noteq> CHR ''+''"
    using h by (auto dest: isdigit_not_special)
  have ok: "int_literal_ok ds"
    using assms h l digits_no_double_underscore [OF assms(2)]
    by (auto simp: int_literal_ok_def list_all_iff)
  have flt: "filter (\<lambda>c. c \<noteq> CHR ''_'') ds = ds"
    using assms(2) by (auto simp: list_all_iff filter_id_conv dest: isdigit_not_special)
  show ?thesis
    by (simp add: py_int_def strip nosign ok flt Let_def)
qed

lemma py_int_digits_short:
  assumes "ds \<noteq> []" and "list_all isdigit ds" and "length ds \<le> MAX_STR_DIGITS"
  shows "py_int ds = Inr (int (digits_value ds))"
  using assms by (simp add: py_int_digits)

lemma foldl_digits_bound:
  assumes "list_all isdigit ds"
  shows "foldl (\<lambda>acc c. 10 * acc + ((of_char c :: nat) - 48)) a ds < (a + 1) * 10 ^ length ds"
  using assms
proof (induction ds arbitrary: a)
  case Nil
  then show ?case by simp
next
  case (Cons c cs)
  then have cs: "list_all isdigit cs" and "isdigit c"
    by simp_all
  then have d: "(of_char c :: nat) - 48 \<le> 9"
    unfolding isdigit_def by linarith
  define b where "b = 10 * a + ((of_char c :: nat) - 48)"
  from d have "b + 1 \<le> 10 * (a + 1)" by (simp add: b_def)
  then have "(b + 1) * 10 ^ length cs \<le> (10 * (a + 1)) * 10 ^ length cs"
    by (rule mult_le_mono1)
  also have "\<dots> = (a + 1) * 10 ^ length (c # cs)" by (simp add: algebra_simps)
  finally have le: "(b + 1) * 10 ^ length cs \<le> (a + 1) * 10 ^ length (c # cs)" .
  have "foldl (\<lambda>acc c. 10 * acc + ((of_char c :: nat) - 48)) b cs < (b + 1) * 10 ^ length cs"
    by (rule Cons.IH [OF cs])
  with le have "foldl (\<lambda>acc c. 10 * acc + ((of_char c :: nat) - 48)) b cs
      < (a + 1) * 10 ^ length (c # cs)"
    by linarith
  then show ?case by (simp add: b_def)
qed

lemma digits_value_bound:
  "list_all isdigit ds \<Longrightarrow> digits_value ds < 10 ^ length ds"
  using foldl_digits_bound [of ds 0] by (simp add: digits_value_def)

lemma pct_match_SomeD:
  assumes "pct_match s = Some g"
  shows "g \<noteq> [] \<and> list_all isdigit g \<and> length g \<le> 3"
  using assms by (auto simp: pct_match_def pct_at_def split: if_splits)

lemma re_search_pct_SomeD:
  "re_search_pct s = Some g \<Longrightarrow> g \<noteq> [] \<and> list_all isdigit g \<and> length g \<le> 3"
proof (induction s)
  case Nil
  then show ?case by simp
next
  case (Cons c cs)
  then show ?case
    by (cases "pct_match (c # cs)") (auto dest: pct_match_SomeD)
qed

lemma re_search_digits_SomeD:
  assumes "re_search_digits s = Some g"
  shows "g \<noteq> [] \<and> list_all isdigit g"
proof -
  define r where "r = dropWhile (\<lambda>c. \<not> isdigit c) s"
  from assms have r: "r \<noteq> []" and g: "g = takeWhile isdigit r"
    by (auto simp: re_search_digits_def r_def Let_def split: if_splits)
  from r have "isdigit (hd r)"
    unfolding r_def using hd_dropWhile [of "\<lambda>c. \<not> isdigit c" s] by simp
  with r have "takeWhile isdigit r \<noteq> []" by (cases r) auto
  moreover have "list_all isdigit (takeWhile isdigit r)"
    by (auto simp: list_all_iff dest: set_takeWhileD)
  ultimately show ?thesis by (simp add: g)
qed

lemma digit_runs_cur:
  "cur \<noteq> [] \<Longrightarrow>
     digit_runs cur s = (cur @ takeWhile isdigit s) # digit_runs [] (dropWhile isdigit s)"
  by (induction s arbitrary: cur) auto

lemma digit_runs_Nil:
  "digit_runs [] s =
     (if dropWhile (\<lambda>c. \<not> isdigit c) s = [] then []
      else takeWhile isdigit (dropWhile (\<lambda>c. \<not> isdigit c) s)
           # digit_runs [] (dropWhile isdigit (dropWhile (\<lambda>c. \<not> isdigit c) s)))"
proof (induction s)
  case Nil
  show ?case by simp
next
  case (Cons c cs)
  show ?case
  proof (cases "isdigit c")
    case True
    have "digit_runs [] (c # cs) = digit_runs [c] cs"
      using True by simp
    also have "\<dots> = ([c] @ takeWhile isdigit cs) # digit_runs [] (dropWhile isdigit cs)"
      by (rule digit_runs_cur) simp
    finally show ?thesis using True by simp
  next
    case False
    then have "digit_runs [] (c # cs) = digit_runs [] cs" by simp
    with Cons.IH False show ?thesis by simp
  qed
qed

lemma py_split_nonempty: "py_split s sep \<noteq> []"
  by (subst py_split.simps) (auto split: option.splits)

lemma py_split_found_length:
  assumes "py_in sep s" and "sep \<noteq> []"
  shows "2 \<le> length (py_split s sep)"
proof -
  from assms(1) obtain i where "py_find s sep 0 = Some i" by (auto simp: py_in_def)
  then have "py_split s sep = take i s # py_split (drop (i + length sep) s) sep"
    using assms(2) by (subst py_split.simps) simp
  moreover have "py_split (drop (i + length sep) s) sep \<noteq> []" by (rule py_split_nonempty)
  ultimately show ?thesis by (cases "py_split (drop (i + length sep) s) sep") auto
qed

lemma find_at_char_takeWhile:
  "find_at [c] s k = Some i \<Longrightarrow> take (i - k) s = takeWhile (\<lambda>x. x \<noteq> c) s"
  "find_at [c] s k = None \<Longrightarrow> takeWhile (\<lambda>x. x \<noteq> c) s = s"
proof (induction s arbitrary: k)
  case Nil
  { case 1 then show ?case by simp }
  { case 2 then show ?case by simp }
next
  case (Cons a as)
  { case 1
    show ?case
    proof (cases "a = c")
      case True
      with 1 show ?thesis by (simp add: py_startswith_def)
    next
      case False
      with 1 have f: "find_at [c] as (Suc k) = Some i" by (simp add: py_startswith_def)
      from find_at_SomeD [OF f] have "Suc k \<le> i" by simp
      then have "i - k = Suc (i - Suc k)" by simp
      with Cons.IH(1) [OF f] False show ?thesis by simp
    qed }
  { case 2
    then have "a \<noteq> c" and f: "find_at [c] as (Suc k) = None"
      by (auto simp: py_startswith_def split: if_splits)
    with Cons.IH(2) [OF f] show ?case by simp }
qed

lemma hd_py_split_char: "hd (py_split s [c]) = takeWhile (\<lambda>x. x \<noteq> c) s"
proof (cases "py_find s [c] 0")
  case None
  then have "find_at [c] s 0 = None" by (simp add: py_find_def)
  from find_at_char_takeWhile(2) [OF this] have tw: "takeWhile (\<lambda>x. x \<noteq> c) s = s" .
  show ?thesis
    by (subst py_split.simps) (simp add: None tw)
next
  case (Some i)
  then have "find_at [c] s 0 = Some i" by (simp add: py_find_def)
  from find_at_char_takeWhile(1) [OF this] have tw: "takeWhile (\<lambda>x. x \<noteq> c) s = take i s"
    by simp
  show ?thesis
    by (subst py_split.simps) (simp add: Some tw)
qed

lemma py_getitem_0: "xs \<noteq> [] \<Longrightarrow> py_getitem xs 0 = Inr (hd xs)"
  by (cases xs) (auto simp: py_getitem_def)

lemma medication_name_eq:
  "medication_name first_line
     = Inr (py_strip (takeWhile (\<lambda>c. c \<noteq> CHR ''('' \<and> c \<noteq> CHR '':'') first_line))"
proof -
  have "takeWhile (\<lambda>x. x \<noteq> CHR '':'') (takeWhile (\<lambda>x. x \<noteq> CHR ''('') first_line)
          = takeWhile (\<lambda>c. c \<noteq> CHR ''('' \<and> c \<noteq> CHR '':'') first_line"
    by (induction first_line) auto
  then show ?thesis
    by (simp add: medication_name_def py_getitem_0 py_split_nonempty hd_py_split_char)
qed

section \<open>Properties of the effectiveness shown\<close>

lemma takeWhile_digits_nonempty:
  assumes "dropWhile (\<lambda>c. \<not> isdigit c) s \<noteq> []"
  shows "takeWhile isdigit (dropWhile (\<lambda>c. \<not> isdigit c) s) \<noteq> []"
proof -
  from assms have "isdigit (hd (dropWhile (\<lambda>c. \<not> isdigit c) s))"
    using hd_dropWhile [of "\<lambda>c. \<not> isdigit c" s] by simp
  with assms show ?thesis by (cases "dropWhile (\<lambda>c. \<not> isdigit c) s") auto
qed

lemma list_all_takeWhile: "list_all P (takeWhile P xs)"
  by (auto simp: list_all_iff dest: set_takeWhileD)

lemma re_findall_digits_first:
  "re_findall_digits s =
     (if first_integer_substring s = [] then []
      else first_integer_substring s
           # digit_runs [] (dropWhile isdigit (dropWhile (\<lambda>c. \<not> isdigit c) s)))"
proof (cases "dropWhile (\<lambda>c. \<not> isdigit c) s = []")
  case True
  have tw: "takeWhile isdigit (dropWhile (\<lambda>c. \<not> isdigit c) s) = []"
    by (simp only: True takeWhile.simps)
  from True show ?thesis
    unfolding first_integer_substring_def tw
    by (simp add: re_findall_digits_def digit_runs_Nil)
next
  case False
  from False have "first_integer_substring s \<noteq> []"
    unfolding first_integer_substring_def by (rule takeWhile_digits_nonempty)
  with False show ?thesis
    by (simp add: re_findall_digits_def digit_runs_Nil first_integer_substring_def)
qed

lemma plot_string:
  "(let numbers = re_findall_digits s in
      if numbers \<noteq> [] then
        (case py_getitem numbers 0 of
           Inl e \<Rightarrow> Inl e
         | Inr ds \<Rightarrow> (case py_int ds of Inl e \<Rightarrow> Inl e | Inr n \<Rightarrow> Inr (PInt n)))
      else Inr (PInt 0))
   = (if MAX_STR_DIGITS < length (first_integer_substring s)
      then Inl (ValueError ''Exceeds the limit (4300 digits) for integer string conversion'')
      else Inr (PInt (case spec_first_integer s of None \<Rightarrow> 0 | Some n \<Rightarrow> n)))"
proof (cases "first_integer_substring s = []")
  case True
  then have "re_findall_digits s = []" by (simp add: re_findall_digits_first)
  with True show ?thesis by (simp add: spec_first_integer_def)
next
  case False
  define ds where "ds = first_integer_substring s"
  have dg: "list_all isdigit ds"
    unfolding ds_def first_integer_substring_def by (rule list_all_takeWhile)
  from False have ne: "ds \<noteq> []" by (simp add: ds_def)
  from False obtain rest where "re_findall_digits s = ds # rest"
    by (simp add: re_findall_digits_first ds_def)
  moreover from ne have "spec_first_integer s = Some (int (digits_value ds))"
    by (simp add: spec_first_integer_def ds_def)
  ultimately show ?thesis
    by (simp add: py_getitem_def py_int_digits [OF ne dg] ds_def [symmetric])
qed

lemma plot_cases:
  "plot_medicine_effectiveness med =
     (if first_integer_beyond_limit med
      then Inl (ValueError ''Exceeds the limit (4300 digits) for integer string conversion'')
      else Inr (PInt (spec_effectiveness_for_display med)))"
proof (cases "map_of med ''effectiveness''")
  case None
  then show ?thesis
    by (simp add: plot_medicine_effectiveness_def dict_get_def spec_effectiveness_for_display_def
        first_integer_beyond_limit_def)
next
  case (Some v)
  show ?thesis
  proof (cases v)
    case (PInt n)
    with Some show ?thesis
      by (simp add: plot_medicine_effectiveness_def dict_get_def spec_effectiveness_for_display_def
          first_integer_beyond_limit_def)
  next
    case (PStr s)
    have "plot_medicine_effectiveness med =
       (let numbers = re_findall_digits s in
            if numbers \<noteq> [] then
              (case py_getitem numbers 0 of
                 Inl e \<Rightarrow> Inl e
               | Inr ds \<Rightarrow> (case py_int ds of Inl e \<Rightarrow> Inl e | Inr n \<Rightarrow> Inr (PInt n)))
            else Inr (PInt 0))"
      using Some PStr by (simp add: plot_medicine_effectiveness_def dict_get_def)
    also note plot_string
    finally show ?thesis
      using Some PStr
      by (simp add: spec_effectiveness_for_display_def first_integer_beyond_limit_def)
  qed
qed

lemma py_int_error: "py_int s = Inl e \<Longrightarrow> \<exists>m. e = ValueError m"
  by (auto simp: py_int_def Let_def split: if_splits)

lemma render_cases:
  "render_medication_cards med =
     Inr (case map_of med ''effectiveness'' of
            None \<Rightarrow> PStr ''N/A''
          | Some (PInt n) \<Rightarrow> PInt n
          | Some (PStr s) \<Rightarrow>
              if sublist ''%'' s
              then (case py_int (py_strip (py_replace s (CHR ''%'') [])) of
                      Inr k \<Rightarrow> PInt k
                    | Inl e \<Rightarrow> PStr s)
              else PStr s)"
proof (cases "map_of med ''effectiveness''")
  case None
  then show ?thesis
    by (simp add: render_medication_cards_def dict_get_def py_in_def py_find_def
        py_startswith_def)
next
  case (Some v)
  show ?thesis
  proof (cases v)
    case (PInt n)
    with Some show ?thesis by (simp add: render_medication_cards_def dict_get_def)
  next
    case (PStr s)
    show ?thesis
    proof (cases "py_int (py_strip (py_replace s (CHR ''%'') []))")
      case (Inl e)
      then obtain m where "e = ValueError m" by (auto dest: py_int_error)
      with Inl Some PStr show ?thesis
        by (simp add: render_medication_cards_def dict_get_def py_in_sublist)
    next
      case (Inr k)
      with Some PStr show ?thesis
        by (simp add: render_medication_cards_def dict_get_def py_in_sublist)
    qed
  qed
qed

lemma long_number_beyond_limit: "first_integer_beyond_limit long_number_record"
proof -
  have d: "isdigit (CHR ''7'')" by (simp add: isdigit_def)
  have "first_integer_substring (replicate 4301 (CHR ''7'')) = replicate 4301 (CHR ''7'')"
    using d by (simp add: first_integer_substring_def)
  then show ?thesis
    by (simp add: first_integer_beyond_limit_def long_number_record_def MAX_STR_DIGITS_def)
qed

lemma range_within_limit: "\<not> first_integer_beyond_limit range_record"
  by code_simp

lemma percent_record_int: "py_int (py_strip (py_replace ''85%'' (CHR ''%'') [])) = Inr 85"
  by code_simp

text \<open>
  Claim C7, as stated, fails: on a record whose effectiveness is the string \<^verbatim>\<open>70-80%\<close>
  the chart uses \<open>70\<close> and the card shows the string itself; on a record with no
  effectiveness the chart uses \<open>0\<close> and the card shows \<^verbatim>\<open>N/A\<close>.
\<close>

theorem effectiveness_display_counterexample:
  "plot_medicine_effectiveness range_record = Inr (PInt 70)
   \<and> render_medication_cards range_record = Inr (PStr ''70-80%'')
   \<and> plot_medicine_effectiveness bare_record = Inr (PInt 0)
   \<and> render_medication_cards bare_record = Inr (PStr ''N/A'')"
  by code_simp

text \<open>
  Claim C7, amended. For every record, the comparison chart resolves the effectiveness by
  the rule of the specification (an integer as it is, of a string the first integer
  substring, \<open>0\<close> when there is none or the field is absent), except that it raises
  \<^verbatim>\<open>ValueError\<close> when the effectiveness is a string whose first integer substring has more
  than 4300 digits. The medication cards follow another rule, and never raise: an integer
  is shown as it is, and there the two agree; an absent effectiveness is shown as
  \<^verbatim>\<open>N/A\<close>; a string without \<^verbatim>\<open>%\<close> is shown unchanged; a string with \<^verbatim>\<open>%\<close> is shown
  as the integer that \<^verbatim>\<open>int\<close> reads in it once the percent signs are removed and it is
  stripped, and unchanged when \<^verbatim>\<open>int\<close> refuses it.
\<close>

theorem effectiveness_display_rules:
  "(first_integer_beyond_limit med
      \<longrightarrow> (\<exists>m. plot_medicine_effectiveness med = Inl (ValueError m)))
   \<and> (\<not> first_integer_beyond_limit med
      \<longrightarrow> plot_medicine_effectiveness med = Inr (PInt (spec_effectiveness_for_display med)))
   \<and> render_medication_cards med =
       Inr (case map_of med ''effectiveness'' of
              None \<Rightarrow> PStr ''N/A''
            | Some (PInt n) \<Rightarrow> PInt n
            | Some (PStr s) \<Rightarrow>
                if sublist ''%'' s
                then (case py_int (py_strip (py_replace s (CHR ''%'') [])) of
                        Inr k \<Rightarrow> PInt k
                      | Inl e \<Rightarrow> PStr s)
                else PStr s)
   \<and> ((\<exists>n. map_of med ''effectiveness'' = Some (PInt n))
      \<longrightarrow> render_medication_cards med = plot_medicine_effectiveness med)"
proof (intro conjI impI)
  show "\<exists>m. plot_medicine_effectiveness med = Inl (ValueError m)"
    if "first_integer_beyond_limit med"
    using that by (simp add: plot_cases)
  show "plot_medicine_effectiveness med = Inr (PInt (spec_effectiveness_for_display med))"
    if "\<not> first_integer_beyond_limit med"
    using that by (simp add: plot_cases)
  show "render_medication_cards med =
       Inr (case map_of med ''effectiveness'' of
              None \<Rightarrow> PStr ''N/A''
            | Some (PInt n) \<Rightarrow> PInt n
            | Some (PStr s) \<Rightarrow>
                if sublist ''%'' s
                then (case py_int (py_strip (py_replace s (CHR ''%'') [])) of
                        Inr k \<Rightarrow> PInt k
                      | Inl e \<Rightarrow> PStr s)
                else PStr s)"
    by (rule render_cases)
  show "render_medication_cards med = plot_medicine_effectiveness med"
    if "\<exists>n. map_of med ''effectiveness'' = Some (PInt n)"
    using that
    by (auto simp: render_cases plot_cases first_integer_beyond_limit_def
        spec_effectiveness_for_display_def)
qed

theorem effectiveness_display_rules_witness:
  "first_integer_beyond_limit long_number_record
   \<and> (\<exists>m. plot_medicine_effectiveness long_number_record = Inl (ValueError m))
   \<and> \<not> first_integer_beyond_limit range_record
   \<and> spec_effectiveness_for_display range_record = 70
   \<and> plot_medicine_effectiveness range_record = Inr (PInt 70)
   \<and> render_medication_cards percent_record = Inr (PInt 85)
   \<and> (\<exists>n. map_of integer_record ''effectiveness'' = Some (PInt n))
   \<and> render_medication_cards integer_record = plot_medicine_effectiveness integer_record"
proof -
  have h1: "\<exists>n. map_of integer_record ''effectiveness'' = Some (PInt n)"
    by (simp add: integer_record_def)
  have h2: "spec_effectiveness_for_display range_record = 70"
    by code_simp
  have h3: "map_of percent_record ''effectiveness'' = Some (PStr ''85%'')"
    by (simp add: percent_record_def)
  have h4: "sublist ''%'' ''85%''"
    by (simp add: py_in_sublist [symmetric] py_in_def py_find_def py_startswith_def)
  note r1 = effectiveness_display_rules [of long_number_record]
  note r2 = effectiveness_display_rules [of range_record]
  note r3 = effectiveness_display_rules [of percent_record]
  note r4 = effectiveness_display_rules [of integer_record]
  have c1: "\<exists>m. plot_medicine_effectiveness long_number_record = Inl (ValueError m)"
    using r1 long_number_beyond_limit by blast
  have c2: "plot_medicine_effectiveness range_record = Inr (PInt 70)"
    using r2 range_within_limit h2 by simp
  have c3: "render_medication_cards percent_record = Inr (PInt 85)"
    using r3 by (simp add: h3 h4 percent_record_int)
  have c4: "render_medication_cards integer_record = plot_medicine_effectiveness integer_record"
    using r4 h1 by blast
  show ?thesis
    using h1 h2 long_number_beyond_limit range_within_limit c1 c2 c3 c4
    by (intro conjI)
qed

section \<open>Properties of \<^verbatim>\<open>parse_medications\<close>\<close>

lemma set_effectiveness_digits:
  assumes "ds \<noteq> []" and "list_all isdigit ds"
  shows "set_effectiveness ds d =
           (if MAX_STR_DIGITS < length ds
            then Inl (ValueError ''Exceeds the limit (4300 digits) for integer string conversion'')
            else Inr (AList.update ''effectiveness'' (PInt (int (digits_value ds))) d))"
  by (simp add: set_effectiveness_def py_int_digits [OF assms])

lemma py_getitem_1: "2 \<le> length xs \<Longrightarrow> py_getitem xs (Suc 0) = Inr (xs ! Suc 0)"
  by (simp add: py_getitem_def)

lemma first_line_effectiveness_pct:
  assumes "re_search_pct first_line = Some g"
  shows "first_line_effectiveness first_line d
           = Inr (AList.update ''effectiveness'' (PInt (int (digits_value g))) d)"
proof -
  from re_search_pct_SomeD [OF assms]
  have g: "g \<noteq> []" "list_all isdigit g" "length g \<le> 3" by simp_all
  then have "\<not> MAX_STR_DIGITS < length g" by (simp add: MAX_STR_DIGITS_def)
  with assms g show ?thesis
    by (simp add: first_line_effectiveness_def set_effectiveness_digits)
qed

text \<open>A string without a match of the percent pattern has no substring with one.\<close>

lemma re_search_pct_None_iff:
  "re_search_pct s = None \<longleftrightarrow> (\<forall>j<length s. pct_match (drop j s) = None)"
proof (induction s)
  case Nil
  show ?case by simp
next
  case (Cons c cs)
  have "(\<forall>j<length (c # cs). pct_match (drop j (c # cs)) = None)
      \<longleftrightarrow> pct_match (c # cs) = None \<and> (\<forall>j<length cs. pct_match (drop j cs) = None)"
  proof
    assume a: "\<forall>j<length (c # cs). pct_match (drop j (c # cs)) = None"
    then have "pct_match (drop 0 (c # cs)) = None" by (simp del: drop0 drop_0)
    moreover have "pct_match (drop j cs) = None" if "j < length cs" for j
      using a [rule_format, of "Suc j"] that by simp
    ultimately show "pct_match (c # cs) = None \<and> (\<forall>j<length cs. pct_match (drop j cs) = None)"
      by simp
  next
    assume a: "pct_match (c # cs) = None \<and> (\<forall>j<length cs. pct_match (drop j cs) = None)"
    show "\<forall>j<length (c # cs). pct_match (drop j (c # cs)) = None"
    proof (intro allI impI)
      fix j assume "j < length (c # cs)"
      with a show "pct_match (drop j (c # cs)) = None" by (cases j) auto
    qed
  qed
  with Cons.IH show ?case by (simp split: option.splits)
qed

lemma pct_at_append: "pct_at k t \<Longrightarrow> pct_at k (t @ ss)"
  by (auto simp: pct_at_def nth_append)

lemma pct_match_append: "pct_match t \<noteq> None \<Longrightarrow> pct_match (t @ ss) \<noteq> None"
  by (auto simp: pct_match_def dest: pct_at_append split: if_splits)

lemma re_search_pct_sublist:
  assumes "re_search_pct s = None" and "sublist t s"
  shows "re_search_pct t = None"
proof (rule ccontr)
  assume "re_search_pct t \<noteq> None"
  then obtain j where j: "j < length t" "pct_match (drop j t) \<noteq> None"
    by (auto simp: re_search_pct_None_iff)
  from assms(2) obtain ps ss where s: "s = ps @ t @ ss" by (auto simp: sublist_def)
  from j(1) have "drop (length ps + j) s = drop j t @ ss" by (simp add: s)
  moreover from j(2) have "pct_match (drop j t @ ss) \<noteq> None" by (rule pct_match_append)
  moreover from j(1) have "length ps + j < length s" by (simp add: s)
  ultimately show False
    using assms(1) by (auto simp: re_search_pct_None_iff)
qed

lemma py_strip_sublist: "sublist (py_strip s) s"
proof -
  have "sublist (dropWhile isspace (rev (dropWhile isspace s))) (rev (dropWhile isspace s))"
    by (rule sublist_dropWhile)
  then have "sublist (py_strip s) (dropWhile isspace s)"
    by (simp add: py_strip_def sublist_rev_left)
  moreover have "sublist (dropWhile isspace s) s" by (rule sublist_dropWhile)
  ultimately show ?thesis by (rule sublist_order.order.trans)
qed

lemma py_split_sublist: "x \<in> set (py_split s sep) \<Longrightarrow> sublist x s"
proof (induction s sep rule: py_split.induct)
  case (1 s sep)
  show ?case
  proof (cases "sep = []")
    case True
    with "1.prems" show ?thesis by (subst (asm) py_split.simps) simp
  next
    case False
    show ?thesis
    proof (cases "py_find s sep 0")
      case None
      with False "1.prems" show ?thesis by (subst (asm) py_split.simps) simp
    next
      case (Some i)
      with False "1.prems"
      have "x = take i s \<or> x \<in> set (py_split (drop (i + length sep) s) sep)"
        by (subst (asm) py_split.simps) simp
      then show ?thesis
      proof
        assume "x = take i s"
        then show ?thesis by simp
      next
        assume "x \<in> set (py_split (drop (i + length sep) s) sep)"
        from "1.IH" [OF False Some this] have "sublist x (drop (i + length sep) s)" .
        moreover have "sublist (drop (i + length sep) s) s" by (rule sublist_drop)
        ultimately show ?thesis by (rule sublist_order.order.trans)
      qed
    qed
  qed
qed

lemma first_line_effectiveness_no_pct:
  assumes "re_search_pct first_line = None"
  shows "first_line_effectiveness first_line d =
           (if \<not> py_in ''Effectiveness:'' first_line then Inr d
            else
              (let eff_text = py_strip (py_split first_line ''Effectiveness:'' ! 1) in
               if py_in ''%'' eff_text then Inr d
               else
                 (case re_search_digits eff_text of
                    Some digits \<Rightarrow> set_effectiveness digits d
                  | None \<Rightarrow> Inr d)))"
proof (cases "py_in ''Effectiveness:'' first_line")
  case False
  with assms show ?thesis by (simp add: first_line_effectiveness_def)
next
  case True
  then have len: "2 \<le> length (py_split first_line ''Effectiveness:'')"
    by (rule py_split_found_length) simp
  define after where "after = py_split first_line ''Effectiveness:'' ! Suc 0"
  from len have "after \<in> set (py_split first_line ''Effectiveness:'')"
    unfolding after_def by (intro nth_mem) simp
  then have "sublist after first_line" by (rule py_split_sublist)
  with py_strip_sublist [of after] have "sublist (py_strip after) first_line"
    by (rule sublist_order.order.trans)
  with assms have np: "re_search_pct (py_strip after) = None"
    by (rule re_search_pct_sublist)
  show ?thesis
    using assms True np
    by (simp add: first_line_effectiveness_def py_getitem_1 [OF len] Let_def
        after_def [symmetric])
qed

lemma first_line_effectiveness_raises:
  assumes "effectiveness_beyond_limit first_line"
  shows "first_line_effectiveness first_line d
           = Inl (ValueError ''Exceeds the limit (4300 digits) for integer string conversion'')"
proof -
  define eff_text where "eff_text = py_strip (py_split first_line ''Effectiveness:'' ! Suc 0)"
  from assms have np: "re_search_pct first_line = None"
    and eff: "py_in ''Effectiveness:'' first_line"
    and nopct: "\<not> py_in ''%'' eff_text"
    by (simp_all add: effectiveness_beyond_limit_def Let_def eff_text_def)
  from assms obtain g where g: "re_search_digits eff_text = Some g" "MAX_STR_DIGITS < length g"
    by (auto simp: effectiveness_beyond_limit_def Let_def eff_text_def split: option.splits)
  from re_search_digits_SomeD [OF g(1)] have "g \<noteq> []" "list_all isdigit g" by simp_all
  then have "set_effectiveness g d
      = Inl (ValueError ''Exceeds the limit (4300 digits) for integer string conversion'')"
    using g(2) by (simp add: set_effectiveness_digits)
  then show ?thesis
    using eff nopct g(1)
    by (simp add: first_line_effectiveness_no_pct [OF np] Let_def eff_text_def [symmetric])
qed

lemma first_line_effectiveness_returns:
  assumes "\<not> effectiveness_beyond_limit first_line"
  shows "\<exists>d'. first_line_effectiveness first_line d = Inr d'"
proof (cases "re_search_pct first_line")
  case (Some g)
  then show ?thesis by (simp add: first_line_effectiveness_pct)
next
  case None
  define eff_text where "eff_text = py_strip (py_split first_line ''Effectiveness:'' ! Suc 0)"
  show ?thesis
  proof (cases "py_in ''Effectiveness:'' first_line \<and> \<not> py_in ''%'' eff_text")
    case False
    then show ?thesis
      by (auto simp: first_line_effectiveness_no_pct [OF None] Let_def eff_text_def [symmetric])
  next
    case True
    show ?thesis
    proof (cases "re_search_digits eff_text")
      case n: None
      with True show ?thesis
        by (simp add: first_line_effectiveness_no_pct [OF None] Let_def eff_text_def [symmetric])
    next
      case (Some g)
      with assms None True have "\<not> MAX_STR_DIGITS < length g"
        by (simp add: effectiveness_beyond_limit_def Let_def eff_text_def [symmetric])
      moreover from re_search_digits_SomeD [OF Some] have "g \<noteq> []" "list_all isdigit g"
        by simp_all
      ultimately show ?thesis
        using True Some
        by (simp add: first_line_effectiveness_no_pct [OF None] Let_def eff_text_def [symmetric]
            set_effectiveness_digits)
    qed
  qed
qed

lemma digits_value_three:
  assumes "list_all isdigit g" and "length g \<le> 3"
  shows "digits_value g \<le> 999"
proof -
  have "digits_value g < 10 ^ length g" using assms(1) by (rule digits_value_bound)
  also have "(10::nat) ^ length g \<le> 10 ^ 3"
    using assms(2) by (intro power_increasing) simp_all
  finally show ?thesis by simp
qed

text \<open>What the first line leaves in the dictionary.\<close>

lemma first_line_effectiveness_other_key:
  assumes "first_line_effectiveness first_line d = Inr d'" and "k \<noteq> ''effectiveness''"
  shows "map_of d' k = map_of d k"
proof (cases "re_search_pct first_line")
  case (Some g)
  with assms show ?thesis by (auto simp: first_line_effectiveness_pct update_conv')
next
  case None
  from assms show ?thesis
    unfolding first_line_effectiveness_no_pct [OF None] Let_def set_effectiveness_def
    by (auto simp: update_conv' split: if_splits option.splits sum.splits)
qed

lemma first_line_effectiveness_value:
  assumes "first_line_effectiveness first_line d = Inr d'"
    and "map_of d ''effectiveness'' = None"
    and "map_of d' ''effectiveness'' = Some v"
  shows "\<exists>n. v = PInt n \<and> 0 \<le> n
           \<and> (case re_search_pct first_line of
                 Some g \<Rightarrow> n = int (digits_value g) \<and> n \<le> 999
               | None \<Rightarrow>
                   sublist ''Effectiveness:'' first_line
                   \<and> (\<exists>g. re_search_digits
                              (py_strip (py_split first_line ''Effectiveness:'' ! 1)) = Some g
                          \<and> length g \<le> MAX_STR_DIGITS
                          \<and> n = int (digits_value g)))"
proof (cases "re_search_pct first_line")
  case (Some g)
  from re_search_pct_SomeD [OF Some] have "digits_value g \<le> 999"
    by (intro digits_value_three) simp_all
  with assms Some show ?thesis
    by (auto simp: first_line_effectiveness_pct update_conv')
next
  case None
  let ?eff_text = "py_strip (py_split first_line ''Effectiveness:'' ! Suc 0)"
  note unfold = first_line_effectiveness_no_pct [OF None, of d, unfolded Let_def, simplified]
  from assms(1,2,3) have eff: "py_in ''Effectiveness:'' first_line"
    by (auto simp: unfold split: if_splits)
  with assms(1,2,3) obtain g where g: "re_search_digits ?eff_text = Some g"
    and s: "set_effectiveness g d = Inr d'"
    by (auto simp: unfold split: if_splits option.splits)
  from re_search_digits_SomeD [OF g] have gd: "g \<noteq> []" "list_all isdigit g" by simp_all
  with s have le: "length g \<le> MAX_STR_DIGITS"
    and d': "d' = AList.update ''effectiveness'' (PInt (int (digits_value g))) d"
    by (auto simp: set_effectiveness_digits split: if_splits)
  from d' assms(3) have "v = PInt (int (digits_value g))" by (simp add: update_conv')
  with None eff g le show ?thesis
    by (simp add: py_in_sublist)
qed

lemma py_split_max1_found:
  assumes "py_in sep s"
  shows "\<exists>a b. py_split_max1 s sep = [a, b]"
  using assms by (auto simp: py_in_def py_split_max1_def)

lemma process_details_total: "\<exists>d'. process_details lines d = Inr d'"
proof (induction lines arbitrary: d)
  case Nil
  show ?case by simp
next
  case (Cons line rest)
  show ?case
  proof (cases "py_in '':'' line")
    case True
    then obtain a b where "py_split_max1 line '':'' = [a, b]"
      using py_split_max1_found by blast
    with True Cons.IH show ?thesis by simp
  next
    case False
    with Cons.IH show ?thesis by simp
  qed
qed

lemma process_details_int:
  "process_details lines d = Inr d' \<Longrightarrow> map_of d' k = Some (PInt n)
     \<Longrightarrow> map_of d k = Some (PInt n)"
proof (induction lines arbitrary: d)
  case Nil
  then show ?case by simp
next
  case (Cons line rest)
  show ?case
  proof (cases "py_in '':'' line")
    case True
    then obtain a b where ab: "py_split_max1 line '':'' = [a, b]"
      using py_split_max1_found by blast
    with True Cons.prems(1)
    have "process_details rest (AList.update (detail_key a) (PStr (py_strip b)) d) = Inr d'"
      by simp
    from Cons.IH [OF this Cons.prems(2)] show ?thesis
      by (simp add: update_conv' split: if_splits)
  next
    case False
    show ?thesis
    proof (cases "py_startswith line ''('' \<and> py_endswith line '')''")
      case True
      with False Cons.prems(1)
      have "process_details rest
              (AList.update ''additional_info'' (PStr (py_strip_chars line ''()'')) d) = Inr d'"
        by simp
      from Cons.IH [OF this Cons.prems(2)] show ?thesis
        by (simp add: update_conv' split: if_splits)
    next
      case no: False
      with False Cons.prems(1) have "process_details rest d = Inr d'" by simp
      from Cons.IH [OF this Cons.prems(2)] show ?thesis .
    qed
  qed
qed

lemma process_details_other_key:
  "process_details lines d = Inr d' \<Longrightarrow> \<forall>line\<in>set lines. line_key line \<noteq> Some k
     \<Longrightarrow> map_of d' k = map_of d k"
proof (induction lines arbitrary: d)
  case Nil
  then show ?case by simp
next
  case (Cons line rest)
  from Cons.prems(2) have lk: "line_key line \<noteq> Some k"
    and rest: "\<forall>line\<in>set rest. line_key line \<noteq> Some k"
    by simp_all
  show ?case
  proof (cases "py_in '':'' line")
    case True
    then obtain a b where ab: "py_split_max1 line '':'' = [a, b]"
      using py_split_max1_found by blast
    with True lk have ne: "detail_key a \<noteq> k" by (simp add: line_key_def)
    from ab True Cons.prems(1)
    have "process_details rest (AList.update (detail_key a) (PStr (py_strip b)) d) = Inr d'"
      by simp
    from Cons.IH [OF this rest] ne show ?thesis
      by (simp add: update_conv')
  next
    case False
    show ?thesis
    proof (cases "py_startswith line ''('' \<and> py_endswith line '')''")
      case True
      with False lk have ne: "''additional_info'' \<noteq> k" by (simp add: line_key_def)
      from True False Cons.prems(1)
      have "process_details rest
              (AList.update ''additional_info'' (PStr (py_strip_chars line ''()'')) d) = Inr d'"
        by simp
      from Cons.IH [OF this rest] ne show ?thesis
        by (simp add: update_conv')
    next
      case no: False
      with False Cons.prems(1) have "process_details rest d = Inr d'" by simp
      from Cons.IH [OF this rest] show ?thesis .
    qed
  qed
qed

lemma process_details_string:
  "process_details lines d = Inr d'
     \<Longrightarrow> (\<exists>line\<in>set lines. line_key line = Some k) \<or> (\<exists>v. map_of d k = Some (PStr v))
     \<Longrightarrow> \<exists>v. map_of d' k = Some (PStr v)"
proof (induction lines arbitrary: d)
  case Nil
  then show ?case by simp
next
  case (Cons line rest)
  show ?case
  proof (cases "py_in '':'' line")
    case True
    then obtain a b where ab: "py_split_max1 line '':'' = [a, b]"
      using py_split_max1_found by blast
    with True have lk: "line_key line = Some (detail_key a)" by (simp add: line_key_def)
    from ab True Cons.prems(1)
    have step: "process_details rest (AList.update (detail_key a) (PStr (py_strip b)) d) = Inr d'"
      by simp
    from Cons.prems(2) lk
    have "(\<exists>line\<in>set rest. line_key line = Some k)
        \<or> (\<exists>v. map_of (AList.update (detail_key a) (PStr (py_strip b)) d) k = Some (PStr v))"
      by (auto simp: update_conv')
    from Cons.IH [OF step this] show ?thesis .
  next
    case False
    show ?thesis
    proof (cases "py_startswith line ''('' \<and> py_endswith line '')''")
      case True
      with False have lk: "line_key line = Some ''additional_info''" by (simp add: line_key_def)
      from True False Cons.prems(1)
      have step: "process_details rest
              (AList.update ''additional_info'' (PStr (py_strip_chars line ''()'')) d) = Inr d'"
        by simp
      from Cons.prems(2) lk
      have "(\<exists>line\<in>set rest. line_key line = Some k)
          \<or> (\<exists>v. map_of (AList.update ''additional_info'' (PStr (py_strip_chars line ''()'')) d) k
                  = Some (PStr v))"
        by (auto simp: update_conv')
      from Cons.IH [OF step this] show ?thesis .
    next
      case no: False
      with False have lk: "line_key line = None" by (simp add: line_key_def)
      from no False Cons.prems(1) have step: "process_details rest d = Inr d'" by auto
      from Cons.prems(2) lk
      have "(\<exists>line\<in>set rest. line_key line = Some k) \<or> (\<exists>v. map_of d k = Some (PStr v))"
        by auto
      from Cons.IH [OF step this] show ?thesis .
    qed
  qed
qed

lemma parse_entry_Nil: "entry_lines entry = [] \<Longrightarrow> parse_entry entry = Inr None"
  by (simp add: parse_entry_def)

lemma parse_entry_Cons:
  assumes "entry_lines entry = first_line # more_lines"
  shows "parse_entry entry =
           (case first_line_effectiveness first_line
                   [(''name'', PStr (py_strip
                      (takeWhile (\<lambda>c. c \<noteq> CHR ''('' \<and> c \<noteq> CHR '':'') first_line)))] of
              Inl e \<Rightarrow> Inl e
            | Inr d1 \<Rightarrow>
                (case process_details more_lines d1 of
                   Inl e \<Rightarrow> Inl e
                 | Inr med \<Rightarrow> Inr (Some med)))"
  using assms by (simp add: parse_entry_def medication_name_eq)

lemma parse_entry_SomeD:
  assumes "parse_entry entry = Inr (Some med)"
  obtains first_line more_lines d1 where
    "entry_lines entry = first_line # more_lines"
    and "first_line_effectiveness first_line
           [(''name'', PStr (py_strip
              (takeWhile (\<lambda>c. c \<noteq> CHR ''('' \<and> c \<noteq> CHR '':'') first_line)))] = Inr d1"
    and "process_details more_lines d1 = Inr med"
proof (cases "entry_lines entry")
  case Nil
  with assms show ?thesis by (simp add: parse_entry_Nil)
next
  case (Cons first_line more_lines)
  from assms show ?thesis
    unfolding parse_entry_Cons [OF Cons]
    by (auto split: sum.splits intro: that [OF Cons])
qed

lemma parse_entry_NoneD: "parse_entry entry = Inr None \<Longrightarrow> entry_lines entry = []"
proof (cases "entry_lines entry")
  case Nil
  then show ?thesis by simp
next
  case (Cons first_line more_lines)
  assume "parse_entry entry = Inr None"
  then show ?thesis
    unfolding parse_entry_Cons [OF Cons] by (auto split: sum.splits)
qed

lemma parse_entries_records:
  "parse_entries entries acc = Inr meds \<Longrightarrow>
     \<exists>new. meds = acc @ new
        \<and> list_all2 (\<lambda>entry med. parse_entry entry = Inr (Some med))
             (filter (\<lambda>entry. entry_lines entry \<noteq> []) entries) new"
proof (induction entries arbitrary: acc)
  case Nil
  then show ?case by simp
next
  case (Cons entry entries)
  show ?case
  proof (cases "parse_entry entry")
    case (Inl e)
    with Cons.prems show ?thesis by simp
  next
    case (Inr r)
    show ?thesis
    proof (cases r)
      case None
      with Inr have "entry_lines entry = []" by (simp add: parse_entry_NoneD)
      moreover from None Inr Cons.prems have "parse_entries entries acc = Inr meds" by simp
      ultimately show ?thesis using Cons.IH by simp
    next
      case (Some m)
      with Inr have ne: "entry_lines entry \<noteq> []" by (auto simp: parse_entry_Nil)
      from Some Inr Cons.prems have "parse_entries entries (acc @ [m]) = Inr meds" by simp
      from Cons.IH [OF this] obtain new where "meds = (acc @ [m]) @ new"
        and "list_all2 (\<lambda>entry med. parse_entry entry = Inr (Some med))
               (filter (\<lambda>entry. entry_lines entry \<noteq> []) entries) new"
        by blast
      with ne Inr Some show ?thesis by (intro exI [of _ "m # new"]) simp
    qed
  qed
qed

lemma parse_medications_records:
  assumes "parse_medications content = Inr meds"
    and "extract_section content ''## 3. Medication Recommendations'' = Inr med_section"
  shows "list_all2 (\<lambda>entry med. parse_entry entry = Inr (Some med))
           (recorded_entries med_section) meds"
proof -
  from assms have "parse_entries (drop 1 (re_split_bullets med_section)) [] = Inr meds"
    by (simp add: parse_medications_def)
  from parse_entries_records [OF this] show ?thesis
    by (simp add: recorded_entries_def)
qed

lemma percent_of_value_parse:
  "parse_medications percent_of_value_report = Inr [percent_of_value_record]"
  by code_simp

lemma percent_of_value_section:
  "extract_section percent_of_value_report ''## 3. Medication Recommendations''
     = Inr percent_of_value_report"
  by code_simp

lemma paracetamol_entry_lines:
  "entry_lines paracetamol_entry
     = [''Paracetamol (500mg) - Effectiveness: 85%'', ''Dosage: 1 tablet'']"
  by code_simp

lemma dosage_line_key: "line_key ''Dosage: 1 tablet'' = Some ''dosage''"
  by code_simp

lemma paracetamol_within_limit:
  "\<not> effectiveness_beyond_limit ''Paracetamol (500mg) - Effectiveness: 85%''"
  by code_simp

lemma range_parse: "parse_medications range_report = Inr [range_record]"
  by code_simp

lemma range_section:
  "extract_section range_report ''## 3. Medication Recommendations'' = Inr range_report"
  by code_simp

lemma range_entry_lines:
  "entry_lines (recorded_entries range_report ! 0) = [''Aspirin'', ''Effectiveness: 70-80%'']"
  by code_simp

lemma range_line_key: "line_key ''Effectiveness: 70-80%'' = Some ''effectiveness''"
  by code_simp

text \<open>
  Claim C5, as stated, fails: the first line \<^verbatim>\<open>Vitamin D (150% of daily value)\<close> has a
  match of the percent pattern, and the record gets the effectiveness \<open>150\<close>.
\<close>

theorem parse_medications_effectiveness_counterexample:
  "parse_medications percent_of_value_report =
     Inr [[(''name'', PStr ''Vitamin D''), (''effectiveness'', PInt 150),
           (''dosage'', PStr ''1 capsule'')]]"
  by code_simp

text \<open>
  Claim C5, amended. For every input text on which \<^verbatim>\<open>parse_medications\<close> returns, the
  records are those of the entries of the medication section that have a line, in order:
  record \<open>i\<close> is parsed from entry \<open>i\<close>. When a later line of that entry stores under
  the key \<^verbatim>\<open>effectiveness\<close>, the effectiveness of the record is a string. When the
  effectiveness of the record is an integer \<open>n\<close>, then \<open>n\<close> is not negative, and: if
  the first line of the entry has a match of the percent pattern (one to three digits,
  then \<^verbatim>\<open>%\<close>), \<open>n\<close> is the number of the leftmost match and is at most \<open>999\<close>; if it
  has none, the first line contains \<^verbatim>\<open>Effectiveness:\<close> and \<open>n\<close> is the first run of
  digits, of at most 4300 digits, in the stripped text after it.
\<close>

theorem parse_medications_effectiveness_range:
  assumes "parse_medications content = Inr meds"
    and "extract_section content ''## 3. Medication Recommendations'' = Inr med_section"
    and "i < length meds"
  shows "length (recorded_entries med_section) = length meds
         \<and> parse_entry (recorded_entries med_section ! i) = Inr (Some (meds ! i))
         \<and> (\<exists>first_line more_lines.
               entry_lines (recorded_entries med_section ! i) = first_line # more_lines
             \<and> ((\<exists>line\<in>set more_lines. line_key line = Some ''effectiveness'')
                  \<longrightarrow> (\<exists>v. map_of (meds ! i) ''effectiveness'' = Some (PStr v)))
             \<and> (\<forall>n. map_of (meds ! i) ''effectiveness'' = Some (PInt n)
                  \<longrightarrow> 0 \<le> n
                     \<and> (case re_search_pct first_line of
                           Some g \<Rightarrow> n = int (digits_value g) \<and> n \<le> 999
                         | None \<Rightarrow>
                             sublist ''Effectiveness:'' first_line
                             \<and> (\<exists>g. re_search_digits
                                        (py_strip (py_split first_line ''Effectiveness:'' ! 1))
                                      = Some g
                                    \<and> length g \<le> MAX_STR_DIGITS
                                    \<and> n = int (digits_value g)))))"
proof -
  note recs = parse_medications_records [OF assms(1,2)]
  from recs have len: "length (recorded_entries med_section) = length meds"
    by (rule list_all2_lengthD)
  with assms(3) have i: "i < length (recorded_entries med_section)" by simp
  from list_all2_nthD [OF recs i]
  have entry: "parse_entry (recorded_entries med_section ! i) = Inr (Some (meds ! i))" .
  from entry obtain first_line more_lines d1
    where ls: "entry_lines (recorded_entries med_section ! i) = first_line # more_lines"
      and d1: "first_line_effectiveness first_line
                 [(''name'', PStr (py_strip
                    (takeWhile (\<lambda>c. c \<noteq> CHR ''('' \<and> c \<noteq> CHR '':'') first_line)))] = Inr d1"
      and med: "process_details more_lines d1 = Inr (meds ! i)"
    by (rule parse_entry_SomeD)
  have str: "\<exists>v. map_of (meds ! i) ''effectiveness'' = Some (PStr v)"
    if "\<exists>line\<in>set more_lines. line_key line = Some ''effectiveness''"
    using process_details_string [OF med] that by blast
  have int: "0 \<le> n
       \<and> (case re_search_pct first_line of
             Some g \<Rightarrow> n = int (digits_value g) \<and> n \<le> 999
           | None \<Rightarrow>
               sublist ''Effectiveness:'' first_line
               \<and> (\<exists>g. re_search_digits
                          (py_strip (py_split first_line ''Effectiveness:'' ! 1)) = Some g
                      \<and> length g \<le> MAX_STR_DIGITS
                      \<and> n = int (digits_value g)))"
    if "map_of (meds ! i) ''effectiveness'' = Some (PInt n)" for n
  proof -
    from process_details_int [OF med that]
    have "map_of d1 ''effectiveness'' = Some (PInt n)" .
    from first_line_effectiveness_value [OF d1 _ this] show ?thesis by simp
  qed
  from len entry ls str int show ?thesis by blast
qed

theorem parse_medications_effectiveness_range_witness:
  "parse_medications percent_of_value_report = Inr [percent_of_value_record]
   \<and> extract_section percent_of_value_report ''## 3. Medication Recommendations''
       = Inr percent_of_value_report
   \<and> (0::nat) < length [percent_of_value_record]
   \<and> map_of percent_of_value_record ''effectiveness'' = Some (PInt 150)
   \<and> length (recorded_entries percent_of_value_report) = 1
   \<and> parse_entry (recorded_entries percent_of_value_report ! 0)
       = Inr (Some percent_of_value_record)
   \<and> (\<exists>first_line more_lines.
         entry_lines (recorded_entries percent_of_value_report ! 0) = first_line # more_lines
       \<and> (case re_search_pct first_line of
             Some g \<Rightarrow> (150::int) = int (digits_value g) \<and> (150::int) \<le> 999
           | None \<Rightarrow>
               sublist ''Effectiveness:'' first_line
               \<and> (\<exists>g. re_search_digits
                          (py_strip (py_split first_line ''Effectiveness:'' ! 1)) = Some g
                      \<and> length g \<le> MAX_STR_DIGITS
                      \<and> (150::int) = int (digits_value g))))
   \<and> parse_medications range_report = Inr [range_record]
   \<and> extract_section range_report ''## 3. Medication Recommendations'' = Inr range_report
   \<and> entry_lines (recorded_entries range_report ! 0) = [''Aspirin'', ''Effectiveness: 70-80%'']
   \<and> line_key ''Effectiveness: 70-80%'' = Some ''effectiveness''
   \<and> (\<exists>v. map_of ([range_record] ! 0) ''effectiveness'' = Some (PStr v))"
proof -
  have h: "(0::nat) < length [percent_of_value_record]" by simp
  have m: "map_of percent_of_value_record ''effectiveness'' = Some (PInt 150)"
    by (simp add: percent_of_value_record_def)
  note r1 = parse_medications_effectiveness_range
    [OF percent_of_value_parse percent_of_value_section h]
  have c1: "length (recorded_entries percent_of_value_report) = 1"
    using r1 by simp
  have c2: "parse_entry (recorded_entries percent_of_value_report ! 0)
       = Inr (Some percent_of_value_record)"
    using r1 by simp
  have c3: "\<exists>first_line more_lines.
         entry_lines (recorded_entries percent_of_value_report ! 0) = first_line # more_lines
       \<and> (case re_search_pct first_line of
             Some g \<Rightarrow> (150::int) = int (digits_value g) \<and> (150::int) \<le> 999
           | None \<Rightarrow>
               sublist ''Effectiveness:'' first_line
               \<and> (\<exists>g. re_search_digits
                          (py_strip (py_split first_line ''Effectiveness:'' ! 1)) = Some g
                      \<and> length g \<le> MAX_STR_DIGITS
                      \<and> (150::int) = int (digits_value g)))"
    using r1 m by (simp del: One_nat_def) blast
  have h2: "(0::nat) < length [range_record]" by simp
  note r2 = parse_medications_effectiveness_range [OF range_parse range_section h2]
  have k: "\<exists>line\<in>set [''Effectiveness: 70-80%'']. line_key line = Some ''effectiveness''"
    by (simp add: range_line_key)
  have c4: "\<exists>v. map_of ([range_record] ! 0) ''effectiveness'' = Some (PStr v)"
    using r2 range_entry_lines k by auto
  show ?thesis
    using percent_of_value_parse percent_of_value_section h m c1 c2 c3
      range_parse range_section range_entry_lines range_line_key c4
    by (intro conjI)
qed

text \<open>
  Claim C8, as stated, fails: in the entry whose first line is \<^verbatim>\<open>Pain relief\<close> and whose
  second line is \<^verbatim>\<open>Name: Paracetamol\<close>, the second line stores its value under the key
  \<^verbatim>\<open>name\<close>, and the name of the record is \<^verbatim>\<open>Paracetamol\<close>.
\<close>

theorem parse_medications_name_counterexample:
  "parse_medications renamed_report = Inr [[(''name'', PStr ''Paracetamol'')]]"
  by code_simp

text \<open>
  Claim C8, amended. Every entry with at least one line gives a record, unless its first
  line has no match of the percent pattern and a number of more than 4300 digits after
  \<^verbatim>\<open>Effectiveness:\<close>, which \<^verbatim>\<open>int\<close> refuses. The name of the record is the stripped
  prefix of the first line up to the first \<^verbatim>\<open>(\<close> or \<^verbatim>\<open>:\<close>, whichever comes first (the
  whole stripped line when there is neither), whenever no later line of the entry stores
  under the key \<^verbatim>\<open>name\<close>. In particular, the first line
  \<^verbatim>\<open>Paracetamol (500mg) - Effectiveness: 85%\<close> gives a record, and with no later line that
  stores under \<^verbatim>\<open>name\<close> or \<^verbatim>\<open>effectiveness\<close> its name is \<^verbatim>\<open>Paracetamol\<close> and its
  effectiveness \<open>85\<close>.
\<close>

theorem parse_entry_name:
  assumes "entry_lines entry = first_line # more_lines"
  shows "(\<not> effectiveness_beyond_limit first_line
            \<longrightarrow> (\<exists>med. parse_entry entry = Inr (Some med)))
         \<and> (\<forall>med. parse_entry entry = Inr (Some med)
                 \<and> (\<forall>line\<in>set more_lines. line_key line \<noteq> Some ''name'')
              \<longrightarrow> map_of med ''name''
                    = Some (PStr (py_strip
                        (takeWhile (\<lambda>c. c \<noteq> CHR ''('' \<and> c \<noteq> CHR '':'') first_line))))
         \<and> (first_line = ''Paracetamol (500mg) - Effectiveness: 85%''
              \<longrightarrow> (\<exists>med. parse_entry entry = Inr (Some med)
                     \<and> ((\<forall>line\<in>set more_lines.
                            line_key line \<noteq> Some ''name''
                            \<and> line_key line \<noteq> Some ''effectiveness'')
                        \<longrightarrow> map_of med ''name'' = Some (PStr ''Paracetamol'')
                            \<and> map_of med ''effectiveness'' = Some (PInt 85))))"
proof -
  define d0 :: med_record
    where "d0 = [(''name'', PStr (py_strip (takeWhile (\<lambda>c. c \<noteq> CHR ''('' \<and> c \<noteq> CHR '':'') first_line)))]"
  note unfold = parse_entry_Cons [OF assms, folded d0_def]
  have returns: "\<exists>med. parse_entry entry = Inr (Some med)"
    if "\<not> effectiveness_beyond_limit first_line"
  proof -
    from first_line_effectiveness_returns [OF that, of d0]
    obtain d1 where d1: "first_line_effectiveness first_line d0 = Inr d1" by blast
    obtain med where "process_details more_lines d1 = Inr med"
      using process_details_total by blast
    with d1 show ?thesis by (simp add: unfold)
  qed
  have general: "map_of med ''name''
                    = Some (PStr (py_strip
                        (takeWhile (\<lambda>c. c \<noteq> CHR ''('' \<and> c \<noteq> CHR '':'') first_line)))"
    if "parse_entry entry = Inr (Some med)
        \<and> (\<forall>line\<in>set more_lines. line_key line \<noteq> Some ''name'')" for med
  proof -
    from that obtain d1 where d1: "first_line_effectiveness first_line d0 = Inr d1"
      and med: "process_details more_lines d1 = Inr med"
      by (auto simp: unfold split: sum.splits)
    from first_line_effectiveness_other_key [OF d1, of "''name''"]
    have "map_of d1 ''name'' = map_of d0 ''name''" by simp
    with process_details_other_key [OF med, of "''name''"] that show ?thesis
      by (simp add: d0_def)
  qed
  have example: "\<exists>med. parse_entry entry = Inr (Some med)
                     \<and> ((\<forall>line\<in>set more_lines.
                            line_key line \<noteq> Some ''name''
                            \<and> line_key line \<noteq> Some ''effectiveness'')
                        \<longrightarrow> map_of med ''name'' = Some (PStr ''Paracetamol'')
                            \<and> map_of med ''effectiveness'' = Some (PInt 85))"
    if fl: "first_line = ''Paracetamol (500mg) - Effectiveness: 85%''"
  proof -
    from fl paracetamol_within_limit have "\<not> effectiveness_beyond_limit first_line" by simp
    from returns [OF this] obtain med where entry: "parse_entry entry = Inr (Some med)" by blast
    then obtain d1 where d1: "first_line_effectiveness first_line d0 = Inr d1"
      and med: "process_details more_lines d1 = Inr med"
      by (auto simp: unfold split: sum.splits)
    have d0v: "d0 = [(''name'', PStr ''Paracetamol'')]"
      unfolding d0_def fl by code_simp
    have "first_line_effectiveness ''Paracetamol (500mg) - Effectiveness: 85%''
            [(''name'', PStr ''Paracetamol'')]
          = Inr [(''name'', PStr ''Paracetamol''), (''effectiveness'', PInt 85)]"
      by code_simp
    with d1 fl d0v have d1v: "d1 = [(''name'', PStr ''Paracetamol''), (''effectiveness'', PInt 85)]"
      by simp
    have "map_of med ''name'' = Some (PStr ''Paracetamol'')
          \<and> map_of med ''effectiveness'' = Some (PInt 85)"
      if "\<forall>line\<in>set more_lines.
            line_key line \<noteq> Some ''name'' \<and> line_key line \<noteq> Some ''effectiveness''"
    proof -
      from that have nn: "\<forall>line\<in>set more_lines. line_key line \<noteq> Some ''name''"
        and ne: "\<forall>line\<in>set more_lines. line_key line \<noteq> Some ''effectiveness''"
        by auto
      from process_details_other_key [OF med nn] process_details_other_key [OF med ne]
      show ?thesis by (simp add: d1v)
    qed
    with entry show ?thesis by blast
  qed
  from returns general example show ?thesis by blast
qed

theorem parse_entry_name_witness:
  "entry_lines paracetamol_entry
     = [''Paracetamol (500mg) - Effectiveness: 85%'', ''Dosage: 1 tablet'']
   \<and> \<not> effectiveness_beyond_limit ''Paracetamol (500mg) - Effectiveness: 85%''
   \<and> line_key ''Dosage: 1 tablet'' = Some ''dosage''
   \<and> (\<exists>med. parse_entry paracetamol_entry = Inr (Some med)
         \<and> map_of med ''name'' = Some (PStr ''Paracetamol'')
         \<and> map_of med ''effectiveness'' = Some (PInt 85))"
proof -
  have h: "\<forall>line\<in>set [''Dosage: 1 tablet''].
             line_key line \<noteq> Some ''name'' \<and> line_key line \<noteq> Some ''effectiveness''"
    by (simp add: dosage_line_key)
  note r = parse_entry_name [OF paracetamol_entry_lines]
  from r h have "\<exists>med. parse_entry paracetamol_entry = Inr (Some med)
         \<and> map_of med ''name'' = Some (PStr ''Paracetamol'')
         \<and> map_of med ''effectiveness'' = Some (PInt 85)"
    by blast
  with paracetamol_entry_lines paracetamol_within_limit dosage_line_key show ?thesis
    by (intro conjI)
qed

end
